theory Spec2Isabelle
  imports Main "HOL-Library.Sublist" "HOL-Library.AList"
begin

section \<open>The express server task of ember-cli\<close>

text \<open>
  A shallow embedding of \<^verbatim>\<open>lib/tasks/server/express-server.js\<close>: the class
  \<^verbatim>\<open>ExpressServerTask\<close>, its fields as a record, its methods as functions that take
  the task and return the updated task.
\<close>

subsection \<open>The module cache\<close>

text \<open>
  \<^verbatim>\<open>require.cache\<close> is an object from resolved file names to loaded modules. It is an
  association list here, in key order; \<^verbatim>\<open>Object.keys\<close> is the list of its keys and
  \<^verbatim>\<open>delete cache[k]\<close> removes the entries of key \<open>k\<close>.
\<close>

type_synonym 'm module_cache = "(string \<times> 'm) list"

definition object_keys :: "'m module_cache \<Rightarrow> string list" where
  "object_keys cache = map fst cache"

definition delete_key :: "string \<Rightarrow> 'm module_cache \<Rightarrow> 'm module_cache" where
  "delete_key k cache = filter (\<lambda>kv. fst kv \<noteq> k) cache"

text \<open>
  \<^verbatim>\<open>String.prototype.indexOf\<close>: the first position at which \<open>s\<close> occurs in \<open>k\<close>, or
  \<open>-1\<close> when it occurs nowhere.
\<close>

fun indexOf :: "string \<Rightarrow> string \<Rightarrow> int" where
  "indexOf [] s = (if s = [] then 0 else - 1)"
| "indexOf (c # cs) s =
     (if prefix s (c # cs) then 0
      else (let r = indexOf cs s in if r < 0 then - 1 else r + 1))"

text \<open>
  The normalisation at the head of \<^verbatim>\<open>invalidateCache\<close>: \<^verbatim>\<open>path.resolve\<close> and
  \<^verbatim>\<open>path.sep\<close> belong to the platform and are parameters. Indexing a string at
  \<open>length - 1\<close> gives \<^verbatim>\<open>undefined\<close> on the empty string, which differs from the separator.
\<close>

definition absoluteServerRoot :: "(string \<Rightarrow> string) \<Rightarrow> char \<Rightarrow> string \<Rightarrow> string" where
  "absoluteServerRoot path_resolve path_sep serverRoot =
     (let a = path_resolve serverRoot
      in if a = [] \<or> last a \<noteq> path_sep then a @ [path_sep] else a)"

text \<open>The loop over the snapshot \<^verbatim>\<open>allKeys\<close> of the keys.\<close>

fun invalidate_loop :: "string \<Rightarrow> string list \<Rightarrow> 'm module_cache \<Rightarrow> 'm module_cache" where
  "invalidate_loop a [] cache = cache"
| "invalidate_loop a (k # ks) cache =
     invalidate_loop a ks (if indexOf k a = 0 then delete_key k cache else cache)"

definition invalidateCache ::
  "(string \<Rightarrow> string) \<Rightarrow> char \<Rightarrow> string \<Rightarrow> 'm module_cache \<Rightarrow> 'm module_cache" where
  "invalidateCache path_resolve path_sep serverRoot cache =
     invalidate_loop (absoluteServerRoot path_resolve path_sep serverRoot)
       (object_keys cache) cache"

subsection \<open>Errors, outcomes and promises\<close>

text \<open>
  \<open>TypeError\<close> and \<open>SilentError\<close> are the two error classes the task raises itself;
  \<open>Error\<close> is any other value thrown or rejected by a collaborator.
\<close>

datatype error = TypeError string | SilentError string | Error string

text \<open>
  How a call ends: it returns normally, or returns a promise that is fulfilled
  (\<open>Resolves\<close>); it returns a promise that is rejected (\<open>Rejects\<close>); it throws
  synchronously (\<open>Throws\<close>); it returns a promise that never settles (\<open>Hangs\<close>).
\<close>

datatype outcome = Resolves | Rejects error | Throws error | Hangs

text \<open>Inside a promise callback or executor an exception becomes a rejection.\<close>

fun settle :: "outcome \<Rightarrow> outcome" where
  "settle (Throws err) = Rejects err"
| "settle out = out"

text \<open>
  \<^verbatim>\<open>p.then(f)\<close>, \<^verbatim>\<open>p.catch(h)\<close> and \<^verbatim>\<open>p.finally(g)\<close> of the promise library, on
  a state \<open>'s\<close> that the callbacks read and update.
\<close>

definition then_p :: "'s \<times> outcome \<Rightarrow> ('s \<Rightarrow> 's \<times> outcome) \<Rightarrow> 's \<times> outcome" where
  "then_p p f =
     (case snd p of
        Resolves \<Rightarrow> (fst (f (fst p)), settle (snd (f (fst p))))
      | Rejects err \<Rightarrow> (fst p, Rejects err)
      | Throws err \<Rightarrow> (fst p, Rejects err)
      | Hangs \<Rightarrow> (fst p, Hangs))"

definition catch_p :: "'s \<times> outcome \<Rightarrow> (error \<Rightarrow> 's \<Rightarrow> 's \<times> outcome) \<Rightarrow> 's \<times> outcome" where
  "catch_p p h =
     (case snd p of
        Resolves \<Rightarrow> (fst p, Resolves)
      | Rejects err \<Rightarrow> (fst (h err (fst p)), settle (snd (h err (fst p))))
      | Throws err \<Rightarrow> (fst (h err (fst p)), settle (snd (h err (fst p))))
      | Hangs \<Rightarrow> (fst p, Hangs))"

definition finally_p :: "'s \<times> outcome \<Rightarrow> ('s \<Rightarrow> 's) \<Rightarrow> 's \<times> outcome" where
  "finally_p p g =
     (case snd p of
        Hangs \<Rightarrow> (fst p, Hangs)
      | Resolves \<Rightarrow> (g (fst p), Resolves)
      | Rejects err \<Rightarrow> (g (fst p), Rejects err)
      | Throws err \<Rightarrow> (g (fst p), Rejects err))"

text \<open>
  \<^verbatim>\<open>mapSeries(array, iterator)\<close> of promise-map-series: the iterator runs on one element
  after the other, each after the previous result is fulfilled; the first rejection skips
  the rest.
\<close>

fun mapSeries :: "'a list \<Rightarrow> ('a \<Rightarrow> 's \<Rightarrow> 's \<times> outcome) \<Rightarrow> 's \<Rightarrow> 's \<times> outcome" where
  "mapSeries [] f t = (t, Resolves)"
| "mapSeries (x # xs) f t = then_p (then_p (t, Resolves) (f x)) (mapSeries xs f)"

subsection \<open>The task and its collaborators\<close>

datatype handler = Compression | Handler string

datatype server = HttpServer | HttpsServer string string

record options =
  host :: "string option"
  port :: nat
  ssl :: bool
  sslKey :: string
  sslCert :: string
  rootURL :: "string option"
  baseURL :: "string option"
  opt_httpServer :: "server option"

datatype watch_event = Change | Add | Delete

text \<open>What the task does to its collaborators, in the order it does it.\<close>

datatype action =
    Express
  | AppUse handler
  | CreateServer server
  | ServerCall string "handler list" options
  | InitializeAddons
  | ServerMiddleware string "handler list" options
  | Listen nat "string option"
  | Emit string
  | Close
  | Destroy nat
  | Invalidate string
  | WatcherOn watch_event
  | WriteLine string
  | WriteError error

text \<open>
  The fields of \<^verbatim>\<open>ExpressServerTask\<close>. \<open>app\<close> is the middleware stack of the express
  application, \<open>sockets\<close> the object from socket ids to sockets, in key order,
  \<open>serverRestartPromise\<close> the outstanding restart promise (named by the request that
  created it) or \<^verbatim>\<open>null\<close>. \<open>require_cache\<close> is the module cache of the process and
  \<open>trace\<close> the actions so far.
\<close>

record task =
  serverRoot :: string
  serverRestartDelayTime :: "nat option"
  serverWatcher :: bool
  startOptions :: options
  app :: "handler list"
  httpServer :: "server option"
  sockets :: "(nat \<times> nat) list"
  nextSocketId :: nat
  serverRestartPromise :: "nat option"
  require_cache :: "nat module_cache"
  trace :: "action list"

text \<open>
  What \<^verbatim>\<open>./server/index.js\<close> exports: a function with its name, its \<^verbatim>\<open>length\<close>, the
  handlers it mounts on the application when called with \<^verbatim>\<open>(app, options)\<close> and how
  that call ends; or a value that is not a function.
\<close>

datatype js_value = JSFunction string nat "handler list" outcome | JSOther

text \<open>
  An addon: its name and, when it has one, its \<^verbatim>\<open>serverMiddleware\<close> hook as the
  handlers it mounts and how the call ends.
\<close>

record addon =
  addon_name :: string
  serverMiddleware :: "(handler list \<times> outcome) option"

text \<open>
  What the collaborators do during one operation: the file system, the path module, the
  project, the transport (how \<^verbatim>\<open>listen\<close> and \<^verbatim>\<open>close\<close> end, and the sockets whose
  \<^verbatim>\<open>close\<close> event is delivered before the callback of the server's \<^verbatim>\<open>close\<close>), and
  \<^verbatim>\<open>clean-base-url\<close>.
\<close>

record env =
  existsSync :: "string \<Rightarrow> bool"
  readFileSync :: "string \<Rightarrow> error + string"
  path_resolve :: "string \<Rightarrow> string"
  path_sep :: char
  project_has :: "string \<Rightarrow> bool"
  project_require :: "string \<Rightarrow> error + js_value"
  addons :: "addon list"
  listen_outcome :: outcome
  close_outcome :: outcome
  closed_first :: "nat list"
  cleanBaseURL :: "string option \<Rightarrow> string"

definition log :: "action list \<Rightarrow> task \<Rightarrow> task" where
  "log as t = t\<lparr>trace := trace t @ as\<rparr>"

definition app_use :: "handler \<Rightarrow> task \<Rightarrow> task" where
  "app_use h t = log [AppUse h] (t\<lparr>app := app t @ [h]\<rparr>)"

definition emit :: "string \<Rightarrow> task \<Rightarrow> task" where
  "emit name t = log [Emit name] t"

definition writeLine :: "string \<Rightarrow> task \<Rightarrow> task" where
  "writeLine s t = log [WriteLine s] t"

definition writeError :: "error \<Rightarrow> task \<Rightarrow> task" where
  "writeError err t = log [WriteError err] t"

text \<open>
  A template literal prints a number in decimal: \<open>decimal n acc\<close> puts the digits of
  \<open>n\<close> in front of \<open>acc\<close>, the last digit first.
\<close>

definition digit_char :: "nat \<Rightarrow> char" where
  "digit_char d = char_of (of_char (CHR ''0'') + d)"

function decimal :: "nat \<Rightarrow> string \<Rightarrow> string" where
  "decimal n acc =
     (if n div 10 = 0 then digit_char n # acc
      else decimal (n div 10) (digit_char (n mod 10) # acc))"
  by pat_completeness auto
termination
  by (relation "measure fst") auto

definition number_string :: "nat \<Rightarrow> string" where
  "number_string n = decimal n []"

definition displayHost :: "string option \<Rightarrow> string" where
  "displayHost specifiedHost =
     (case specifiedHost of
        None \<Rightarrow> ''localhost''
      | Some h \<Rightarrow> if h = [] then ''localhost'' else h)"

subsection \<open>Creating the server\<close>

definition sslKey_message :: "string \<Rightarrow> string" where
  "sslKey_message p =
     ''SSL key couldn't be found in '' @ [CHR 0x22] @ p @ [CHR 0x22] @
     '', please provide a path to an existing ssl key file with --ssl-key''"

definition sslCert_message :: "string \<Rightarrow> string" where
  "sslCert_message p =
     ''SSL certificate couldn't be found in '' @ [CHR 0x22] @ p @ [CHR 0x22] @
     '', please provide a path to an existing ssl certificate file with --ssl-cert''"

definition createHttpsServer :: "env \<Rightarrow> task \<Rightarrow> task \<times> (error + server)" where
  "createHttpsServer e t =
     (let opts = startOptions t in
      if \<not> existsSync e (sslKey opts) then (t, Inl (TypeError (sslKey_message (sslKey opts))))
      else if \<not> existsSync e (sslCert opts)
        then (t, Inl (TypeError (sslCert_message (sslCert opts))))
      else
        (case readFileSync e (sslKey opts) of
           Inl err \<Rightarrow> (t, Inl err)
         | Inr key \<Rightarrow>
            (case readFileSync e (sslCert opts) of
               Inl err \<Rightarrow> (t, Inl err)
             | Inr cert \<Rightarrow>
                 (log [CreateServer (HttpsServer key cert)] t, Inr (HttpsServer key cert)))))"

text \<open>
  \<^verbatim>\<open>setupHttpServer\<close>: when creating the server throws, the assignments after it do
  not happen. The result is the task and the exception, if any.
\<close>

definition setupHttpServer :: "env \<Rightarrow> task \<Rightarrow> task \<times> error option" where
  "setupHttpServer e t =
     (case (if ssl (startOptions t) then createHttpsServer e t
            else (log [CreateServer HttpServer] t, Inr HttpServer)) of
        (t1, Inl err) \<Rightarrow> (t1, Some err)
      | (t1, Inr srv) \<Rightarrow>
          (t1\<lparr>httpServer := Some srv, sockets := [], nextSocketId := 0\<rparr>, None))"

text \<open>
  The two event handlers \<^verbatim>\<open>setupHttpServer\<close> installs: on a connection of the server,
  and on the close of a socket registered under \<open>socketId\<close>. The second reads
  \<^verbatim>\<open>this.sockets\<close> when the event arrives.
\<close>

definition on_connection :: "nat \<Rightarrow> task \<Rightarrow> task" where
  "on_connection socket t =
     t\<lparr>sockets := AList.update (nextSocketId t) socket (sockets t),
       nextSocketId := Suc (nextSocketId t)\<rparr>"

definition on_socket_close :: "nat \<Rightarrow> task \<Rightarrow> task" where
  "on_socket_close socketId t = t\<lparr>sockets := AList.delete socketId (sockets t)\<rparr>"

subsection \<open>Listening\<close>

text \<open>
  \<^verbatim>\<open>listen\<close>: the executor calls \<^verbatim>\<open>server.listen\<close>; the \<^verbatim>\<open>listening\<close> event
  resolves the promise and is re-emitted, the \<^verbatim>\<open>error\<close> event rejects it.
\<close>

definition listen :: "env \<Rightarrow> nat \<Rightarrow> string option \<Rightarrow> task \<Rightarrow> task \<times> outcome" where
  "listen e p h t =
     (case httpServer t of
        None \<Rightarrow> (t, Rejects (TypeError ''Cannot read property 'listen' of null''))
      | Some srv \<Rightarrow>
         (case listen_outcome e of
            Resolves \<Rightarrow> (emit ''listening'' (log [Listen p h] t), Resolves)
          | Rejects err \<Rightarrow> (log [Listen p h] t, Rejects err)
          | Throws err \<Rightarrow> (log [Listen p h] t, Rejects err)
          | Hangs \<Rightarrow> (log [Listen p h] t, Hangs)))"

subsection \<open>The middleware pipeline\<close>

definition addon_iterator :: "options \<Rightarrow> addon \<Rightarrow> task \<Rightarrow> task \<times> outcome" where
  "addon_iterator opts addon t =
     (case serverMiddleware addon of
        None \<Rightarrow> (t, Resolves)
      | Some (mounts, out) \<Rightarrow>
          ((log [ServerMiddleware (addon_name addon) (app t) opts] t)\<lparr>app := app t @ mounts\<rparr>,
           out))"

definition processAddonMiddlewares :: "env \<Rightarrow> options \<Rightarrow> task \<Rightarrow> task \<times> outcome" where
  "processAddonMiddlewares e opts t =
     mapSeries (addons e) (addon_iterator opts) (log [InitializeAddons] t)"

definition server_entry_message :: string where
  "server_entry_message =
     ''ember-cli expected ./server/index.js to be the entry for your mock or proxy server''"

definition processAppMiddlewares :: "env \<Rightarrow> options \<Rightarrow> task \<Rightarrow> task \<times> outcome" where
  "processAppMiddlewares e opts t =
     (if project_has e (serverRoot t) then
        (case project_require e (serverRoot t) of
           Inl err \<Rightarrow> (t, Throws err)
         | Inr JSOther \<Rightarrow> (t, Throws (TypeError server_entry_message))
         | Inr (JSFunction name len mounts out) \<Rightarrow>
             if len = 3 then (app_use (Handler name) t, Resolves)
             else ((log [ServerCall name (app t) opts] t)\<lparr>app := app t @ mounts\<rparr>, out))
      else (t, Resolves))"

subsection \<open>Starting and stopping\<close>

definition bind_message :: "options \<Rightarrow> string" where
  "bind_message opts =
     ''Could not serve on http://'' @ displayHost (host opts) @ '':'' @
     number_string (port opts) @
     ''. It is either in use or you do not have permission.''"

definition startHttpServer :: "env \<Rightarrow> task \<Rightarrow> task \<times> outcome" where
  "startHttpServer e t =
     (let t1 = app_use Compression (log [Express] (t\<lparr>app := []\<rparr>))
      in case setupHttpServer e t1 of
           (t2, Some err) \<Rightarrow> (t2, Throws err)
         | (t2, None) \<Rightarrow>
             (let opts = (startOptions t2)\<lparr>opt_httpServer := httpServer t2\<rparr>;
                  t3 = t2\<lparr>startOptions := opts\<rparr>
              in then_p
                   (then_p
                      (then_p (t3, Resolves) (processAppMiddlewares e opts))
                      (processAddonMiddlewares e opts))
                   (\<lambda>t. catch_p (listen e (port opts) (host opts) t)
                           (\<lambda>err t. (t, Throws (SilentError (bind_message opts)))))))"

text \<open>
  \<^verbatim>\<open>stopHttpServer\<close>: with no server the promise resolves at once. Otherwise the
  executor calls \<^verbatim>\<open>close\<close> with a callback and destroys every registered socket; an
  exception of \<^verbatim>\<open>close\<close> itself rejects the promise before the loop. Then the
  transport delivers the \<^verbatim>\<open>close\<close> events of the sockets in \<open>closed_first\<close> and calls
  the callback, with an error or without.
\<close>

definition stopHttpServer :: "env \<Rightarrow> task \<Rightarrow> task \<times> outcome" where
  "stopHttpServer e t =
     (case httpServer t of
        None \<Rightarrow> (t, Resolves)
      | Some srv \<Rightarrow>
         (let t1 = log [Close] t;
              t2 = log (map (\<lambda>kv. Destroy (fst kv)) (sockets t1)) t1;
              t3 = fold on_socket_close (closed_first e) t2
          in case close_outcome e of
               Throws err \<Rightarrow> (t1, Rejects err)
             | Rejects err \<Rightarrow> (t3, Rejects err)
             | Resolves \<Rightarrow> (t3\<lparr>httpServer := None\<rparr>, Resolves)
             | Hangs \<Rightarrow> (t3, Hangs)))"

definition serving_message :: "env \<Rightarrow> options \<Rightarrow> string" where
  "serving_message e opts =
     ''Serving on http'' @ (if ssl opts then ''s'' else []) @ ''://'' @
     displayHost (host opts) @ '':'' @ number_string (port opts) @
     (if rootURL opts = Some [] then ''/''
      else cleanBaseURL e
             (case rootURL opts of None \<Rightarrow> baseURL opts
              | Some r \<Rightarrow> if r = [] then baseURL opts else Some r))"

text \<open>
  \<^verbatim>\<open>start\<close>: the options are stored, the handlers of the watcher are registered, and
  the status line is written once \<^verbatim>\<open>startHttpServer\<close> is fulfilled. An exception of
  \<^verbatim>\<open>startHttpServer\<close> leaves \<^verbatim>\<open>start\<close> as it is. The project, the watchers and
  the user interface that \<^verbatim>\<open>start\<close> copies into the options are not fields of the
  model.
\<close>

definition watch :: "task \<Rightarrow> task" where
  "watch t =
     (if serverWatcher t
      then log [WatcherOn Change, WatcherOn Add, WatcherOn Delete] t else t)"

definition start :: "env \<Rightarrow> options \<Rightarrow> task \<Rightarrow> task \<times> outcome" where
  "start e opts t =
     (case startHttpServer e (watch (t\<lparr>startOptions := opts\<rparr>)) of
        (t3, Throws err) \<Rightarrow> (t3, Throws err)
      | (t3, Resolves) \<Rightarrow>
          then_p (t3, Resolves)
            (\<lambda>t. (writeLine (serving_message e (startOptions t)) t, Resolves))
      | (t3, Rejects err) \<Rightarrow> (t3, Rejects err)
      | (t3, Hangs) \<Rightarrow> (t3, Hangs))"

subsection \<open>One restart cycle\<close>

definition invalidate_task :: "env \<Rightarrow> task \<Rightarrow> task" where
  "invalidate_task e t =
     log [Invalidate (serverRoot t)]
       (t\<lparr>require_cache :=
           invalidateCache (path_resolve e) (path_sep e) (serverRoot t) (require_cache t)\<rparr>)"

definition restarted :: "task \<Rightarrow> task" where
  "restarted t =
     writeLine [] (writeLine ''Server restarted.'' (writeLine [] (emit ''restart'' t)))"

text \<open>
  The promise chain of the first branch of \<^verbatim>\<open>restartHttpServer\<close>, run to its end
  with the collaborators behaving as \<open>e\<close> says.
\<close>

definition restart_cycle :: "env \<Rightarrow> task \<Rightarrow> task \<times> outcome" where
  "restart_cycle e t =
     finally_p
       (catch_p
          (then_p
             (then_p (stopHttpServer e t) (\<lambda>t. startHttpServer e (invalidate_task e t)))
             (\<lambda>t. (restarted t, Resolves)))
          (\<lambda>err t. (writeError err t, Resolves)))
       (\<lambda>t. t\<lparr>serverRestartPromise := None\<rparr>)"

subsection \<open>Restart requests and the debounced trigger\<close>

text \<open>
  The task among the events that reach it. \<open>thens\<close> holds the continuations attached
  by \<^verbatim>\<open>.then\<close> to the outstanding restart promise, in the order they were attached,
  each named by its request; \<open>timer\<close> is the time at which the pending call of the
  debounced function falls due; \<open>marks\<close> records where restart cycles begin and end;
  \<open>returned\<close> is how the promise returned to each request settled; requests are numbered
  in the order they are made.
\<close>

datatype mark = CycleBegin nat | CycleEnd nat

record world =
  the_task :: task
  thens :: "nat list"
  timer :: "nat option"
  marks :: "mark list"
  returned :: "(nat \<times> outcome) list"
  next_request :: nat

text \<open>
  \<^verbatim>\<open>restartHttpServer\<close>, called for request \<open>r\<close>: with no outstanding promise the
  chain of a new cycle is created and stored; otherwise a continuation that calls
  \<^verbatim>\<open>restartHttpServer\<close> again is attached to the outstanding promise.
\<close>

definition restartHttpServer :: "nat \<Rightarrow> world \<Rightarrow> world" where
  "restartHttpServer r w =
     (case serverRestartPromise (the_task w) of
        None \<Rightarrow>
          w\<lparr>the_task := (the_task w)\<lparr>serverRestartPromise := Some r\<rparr>,
            marks := marks w @ [CycleBegin r]\<rparr>
      | Some p \<Rightarrow> w\<lparr>thens := thens w @ [r]\<rparr>)"

text \<open>
  The chain of the outstanding cycle runs to its end with the collaborators behaving as
  \<open>e\<close> says. A fulfilled promise runs its continuations in order; a rejected one skips
  them, and the promises derived from it are rejected too. A chain that hangs under \<open>e\<close>
  does not end.
\<close>

definition cycle_settles :: "env \<Rightarrow> world \<Rightarrow> world" where
  "cycle_settles e w =
     (case serverRestartPromise (the_task w) of
        None \<Rightarrow> w
      | Some r \<Rightarrow>
         (case snd (restart_cycle e (the_task w)) of
            Hangs \<Rightarrow> w
          | Resolves \<Rightarrow>
              fold restartHttpServer (thens w)
                (w\<lparr>the_task := fst (restart_cycle e (the_task w)), thens := [],
                   marks := marks w @ [CycleEnd r],
                   returned := returned w @ [(r, Resolves)]\<rparr>)
          | Rejects err \<Rightarrow>
              w\<lparr>the_task := fst (restart_cycle e (the_task w)), thens := [],
                marks := marks w @ [CycleEnd r],
                returned := returned w @ (r, Rejects err) #
                  map (\<lambda>q. (q, Rejects err)) (thens w)\<rparr>
          | Throws err \<Rightarrow>
              w\<lparr>the_task := fst (restart_cycle e (the_task w)), thens := [],
                marks := marks w @ [CycleEnd r],
                returned := returned w @ (r, Rejects err) #
                  map (\<lambda>q. (q, Rejects err)) (thens w)\<rparr>))"

text \<open>
  The constructor's \<^verbatim>\<open>this.serverRestartDelayTime || 100\<close> and the debounced function
  of lodash with its default options: a call at time \<open>now\<close> moves the pending invocation
  to \<open>now + delay\<close>; when that time is reached the wrapped function runs once.
\<close>

definition restart_delay :: "task \<Rightarrow> nat" where
  "restart_delay t =
     (case serverRestartDelayTime t of
        None \<Rightarrow> 100
      | Some d \<Rightarrow> if d = 0 then 100 else d)"

definition scheduleServerRestart :: "nat \<Rightarrow> world \<Rightarrow> world" where
  "scheduleServerRestart now w = w\<lparr>timer := Some (now + restart_delay (the_task w))\<rparr>"

definition timer_due :: "nat \<Rightarrow> world \<Rightarrow> world" where
  "timer_due now w =
     (case timer w of
        None \<Rightarrow> w
      | Some d \<Rightarrow>
          if d \<le> now
          then restartHttpServer (next_request w)
                 (w\<lparr>timer := None, next_request := Suc (next_request w)\<rparr>)
          else w)"

definition serverWatcherDidChange :: "nat \<Rightarrow> world \<Rightarrow> world" where
  "serverWatcherDidChange now w = scheduleServerRestart now w"

text \<open>
  The events: a direct call of \<^verbatim>\<open>restartHttpServer\<close>; the end of the outstanding
  cycle; a notification of the watcher at a time, which runs every handler that
  \<^verbatim>\<open>start\<close> registered for it; the passing of time.
\<close>

datatype event = Restart | Settled env | Notify watch_event nat | Time nat

fun step :: "event \<Rightarrow> world \<Rightarrow> world" where
  "step Restart w =
     restartHttpServer (next_request w) (w\<lparr>next_request := Suc (next_request w)\<rparr>)"
| "step (Settled e) w = cycle_settles e w"
| "step (Notify k now) w =
     (serverWatcherDidChange now ^^ count_list (trace (the_task w)) (WatcherOn k))
       (timer_due now w)"
| "step (Time now) w = timer_due now w"

definition run :: "event list \<Rightarrow> world \<Rightarrow> world" where
  "run evs w = fold step evs w"

subsection \<open>Notions used in the statements\<close>



fun cycles :: "nat list \<Rightarrow> mark list" where
  "cycles [] = []"
| "cycles (r # rs) = CycleBegin r # CycleEnd r # cycles rs"


text \<open>Times of notifications, each less than the delay after the one before.\<close>

fun burst :: "nat \<Rightarrow> nat list \<Rightarrow> bool" where
  "burst d [] = True"
| "burst d [t] = True"
| "burst d (t # t' # ts) = (t \<le> t' \<and> t' < t + d \<and> burst d (t' # ts))"

text \<open>No collaborator leaves a promise unsettled.\<close>

fun value_hangs :: "error + js_value \<Rightarrow> bool" where
  "value_hangs (Inr (JSFunction name len mounts Hangs)) = (len \<noteq> 3)"
| "value_hangs v = False"

fun hook_hangs :: "addon \<Rightarrow> bool" where
  "hook_hangs a = (case serverMiddleware a of Some (mounts, Hangs) \<Rightarrow> True | _ \<Rightarrow> False)"

definition hangs :: "env \<Rightarrow> task \<Rightarrow> bool" where
  "hangs e t =
     (close_outcome e = Hangs \<or> listen_outcome e = Hangs
      \<or> value_hangs (project_require e (serverRoot t))
      \<or> list_ex hook_hangs (addons e))"

text \<open>The actions of an operation: what it added to the trace.\<close>

definition new_actions :: "task \<Rightarrow> task \<Rightarrow> action list" where
  "new_actions t t' = drop (length (trace t)) (trace t')"

fun is_hook_call :: "action \<Rightarrow> bool" where
  "is_hook_call (ServerMiddleware n a opts) = True"
| "is_hook_call a = False"

fun is_module_action :: "action \<Rightarrow> bool" where
  "is_module_action (ServerCall n a opts) = True"
| "is_module_action (AppUse (Handler n)) = True"
| "is_module_action a = False"

fun is_listen :: "action \<Rightarrow> bool" where
  "is_listen (Listen p h) = True"
| "is_listen a = False"

text \<open>
  The addon hooks called in series on an application whose stack is \<open>ap\<close>: every addon
  that has a hook, in the order of the collection, each given the application as the
  hooks before it left it and the options, up to and including the first hook that is not
  fulfilled. \<open>series_outcome\<close> is how the series ends and \<open>series_mounts\<close> what it mounts.
\<close>

fun hook_calls :: "options \<Rightarrow> handler list \<Rightarrow> addon list \<Rightarrow> action list" where
  "hook_calls opts ap [] = []"
| "hook_calls opts ap (a # as) =
     (case serverMiddleware a of
        None \<Rightarrow> hook_calls opts ap as
      | Some (mounts, out) \<Rightarrow>
          ServerMiddleware (addon_name a) ap opts #
          (if out = Resolves then hook_calls opts (ap @ mounts) as else []))"

fun series_outcome :: "addon list \<Rightarrow> outcome" where
  "series_outcome [] = Resolves"
| "series_outcome (a # as) =
     (case serverMiddleware a of
        None \<Rightarrow> series_outcome as
      | Some (mounts, out) \<Rightarrow> if out = Resolves then series_outcome as else settle out)"

fun series_mounts :: "addon list \<Rightarrow> handler list" where
  "series_mounts [] = []"
| "series_mounts (a # as) =
     (case serverMiddleware a of
        None \<Rightarrow> series_mounts as
      | Some (mounts, out) \<Rightarrow> mounts @ (if out = Resolves then series_mounts as else []))"

text \<open>
  What \<^verbatim>\<open>startHttpServer\<close> leaves behind once the server \<open>srv\<close> is created, when the
  server module mounted \<open>ms\<close>, did \<open>as\<close> and ended as \<open>mout\<close>: the chain stops at the
  first link that is not fulfilled.
\<close>

definition bind_outcome :: "env \<Rightarrow> options \<Rightarrow> outcome" where
  "bind_outcome e opts =
     (case listen_outcome e of
        Resolves \<Rightarrow> Resolves
      | Rejects err \<Rightarrow> Rejects (SilentError (bind_message opts))
      | Throws err \<Rightarrow> Rejects (SilentError (bind_message opts))
      | Hangs \<Rightarrow> Hangs)"

definition start_shape ::
  "env \<Rightarrow> task \<Rightarrow> server \<Rightarrow> handler list \<Rightarrow> action list \<Rightarrow> outcome \<Rightarrow> task \<times> outcome" where
  "start_shape e t srv ms as mout =
     (let opts = (startOptions t)\<lparr>opt_httpServer := Some srv\<rparr>;
          b = t\<lparr>startOptions := opts, httpServer := Some srv, sockets := [],
                nextSocketId := 0\<rparr>;
          pre = trace t @ [Express, AppUse Compression, CreateServer srv] @ as;
          hs = InitializeAddons # hook_calls opts (Compression # ms) (addons e)
      in if mout \<noteq> Resolves
         then (b\<lparr>app := Compression # ms, trace := pre\<rparr>, settle mout)
         else if series_outcome (addons e) \<noteq> Resolves
         then (b\<lparr>app := Compression # ms @ series_mounts (addons e), trace := pre @ hs\<rparr>,
               series_outcome (addons e))
         else (b\<lparr>app := Compression # ms @ series_mounts (addons e),
                 trace := pre @ hs @ Listen (port opts) (host opts) #
                   (if listen_outcome e = Resolves then [Emit ''listening''] else [])\<rparr>,
               bind_outcome e opts))"

text \<open>
  The bookkeeping of the requests numbered from \<open>n0\<close>, when the cycles of \<open>done\<close>
  have ended: they are the marks, followed by the beginning of the outstanding cycle; the
  requests made are those done, the outstanding one and those waiting, in this order;
  nothing waits when no promise is outstanding.
\<close>

definition outstanding :: "world \<Rightarrow> nat list" where
  "outstanding w = (case serverRestartPromise (the_task w) of None \<Rightarrow> [] | Some r \<Rightarrow> [r])"

definition queue_inv :: "nat \<Rightarrow> nat list \<Rightarrow> world \<Rightarrow> bool" where
  "queue_inv n0 done w \<longleftrightarrow>
     marks w = cycles done @ map CycleBegin (outstanding w)
     \<and> n0 \<le> next_request w
     \<and> done @ outstanding w @ thens w = [n0..<next_request w]
     \<and> (outstanding w = [] \<longrightarrow> thens w = [])"

subsection \<open>Example inputs\<close>

definition ex_options :: options where
  "ex_options =
     \<lparr>host = None, port = 4200, ssl = False, sslKey = ''ssl/server.key'',
      sslCert = ''ssl/server.crt'', rootURL = Some [], baseURL = None,
      opt_httpServer = None\<rparr>"

definition ex_task :: task where
  "ex_task =
     \<lparr>serverRoot = ''server'', serverRestartDelayTime = None, serverWatcher = True,
      startOptions = ex_options, app = [], httpServer = None, sockets = [],
      nextSocketId = 0, serverRestartPromise = None, require_cache = [], trace = []\<rparr>"

definition ex_env :: env where
  "ex_env =
     \<lparr>existsSync = (\<lambda>p. False), readFileSync = (\<lambda>p. Inl (Error ''ENOENT'')),
      path_resolve = (\<lambda>p. ''/app/'' @ p), path_sep = CHR ''/'',
      project_has = (\<lambda>p. False),
      project_require = (\<lambda>p. Inl (Error ''MODULE_NOT_FOUND'')),
      addons = [], listen_outcome = Resolves, close_outcome = Resolves,
      closed_first = [], cleanBaseURL = (\<lambda>u. ''/'')\<rparr>"

definition ex_world :: world where
  "ex_world =
     \<lparr>the_task = ex_task, thens = [], timer = None, marks = [], returned = [],
      next_request = 0\<rparr>"

section \<open>Properties\<close>

subsection \<open>Promises and the phases of a start\<close>

lemma then_p_simps [simp]:
  "then_p (t, Resolves) f = (fst (f t), settle (snd (f t)))"
  "then_p (t, Rejects err) f = (t, Rejects err)"
  "then_p (t, Throws err) f = (t, Rejects err)"
  "then_p (t, Hangs) f = (t, Hangs)"
  by (simp_all add: then_p_def)

lemma catch_p_simps [simp]:
  "catch_p (t, Resolves) h = (t, Resolves)"
  "catch_p (t, Rejects err) h = (fst (h err t), settle (snd (h err t)))"
  "catch_p (t, Throws err) h = (fst (h err t), settle (snd (h err t)))"
  "catch_p (t, Hangs) h = (t, Hangs)"
  by (simp_all add: catch_p_def)

lemma finally_p_simps [simp]:
  "finally_p (t, Resolves) g = (g t, Resolves)"
  "finally_p (t, Rejects err) g = (g t, Rejects err)"
  "finally_p (t, Throws err) g = (g t, Rejects err)"
  "finally_p (t, Hangs) g = (t, Hangs)"
  by (simp_all add: finally_p_def)

lemma settle_not_Throws [simp]: "settle out \<noteq> Throws err"
  by (cases out) auto

lemma settle_idem [simp]: "settle (settle out) = settle out"
  by (cases out) auto

lemma settle_Resolves_iff [simp]: "settle out = Resolves \<longleftrightarrow> out = Resolves"
  by (cases out) auto

lemma settle_Hangs_iff [simp]: "settle out = Hangs \<longleftrightarrow> out = Hangs"
  by (cases out) auto

lemmas prims = log_def app_use_def emit_def writeLine_def writeError_def

lemma addon_iterator_None:
  "serverMiddleware a = None \<Longrightarrow> addon_iterator opts a t = (t, Resolves)"
  by (simp add: addon_iterator_def)

lemma addon_iterator_Some:
  "serverMiddleware a = Some (m, out) \<Longrightarrow>
   addon_iterator opts a t =
     (t\<lparr>app := app t @ m, trace := trace t @ [ServerMiddleware (addon_name a) (app t) opts]\<rparr>, out)"
  by (simp add: addon_iterator_def prims)

lemma settle_series_outcome [simp]: "settle (series_outcome as) = series_outcome as"
  by (induction as) (auto split: option.splits)

lemma series_outcome_not_Throws [simp]: "series_outcome as \<noteq> Throws err"
  by (metis settle_series_outcome settle_not_Throws)

lemma mapSeries_hooks:
  "mapSeries as (addon_iterator opts) t =
     (t\<lparr>app := app t @ series_mounts as, trace := trace t @ hook_calls opts (app t) as\<rparr>,
      series_outcome as)"
proof (induction as arbitrary: t)
  case Nil
  then show ?case by simp
next
  case (Cons a as)
  show ?case
  proof (cases "serverMiddleware a")
    case None
    then show ?thesis by (simp add: addon_iterator_None Cons.IH)
  next
    case (Some mo)
    obtain mounts out where mo: "mo = (mounts, out)" by (cases mo)
    show ?thesis
      by (cases out) (simp_all add: Some mo addon_iterator_Some Cons.IH)
  qed
qed

lemma processAddonMiddlewares_eq:
  "processAddonMiddlewares e opts t =
     (t\<lparr>app := app t @ series_mounts (addons e),
        trace := trace t @ InitializeAddons # hook_calls opts (app t) (addons e)\<rparr>,
      series_outcome (addons e))"
  by (simp add: processAddonMiddlewares_def mapSeries_hooks prims)

lemma frame_refl:
  "t' = t \<Longrightarrow> \<exists>ms as. t' = t\<lparr>app := app t @ ms, trace := trace t @ as\<rparr> \<and> list_all P as"
  by (rule exI [of _ "[]"], rule exI [of _ "[]"]) simp

lemma processAppMiddlewares_frame:
  "\<exists>ms as. fst (processAppMiddlewares e opts t) = t\<lparr>app := app t @ ms, trace := trace t @ as\<rparr>
     \<and> list_all is_module_action as"
proof (cases "project_has e (serverRoot t)")
  case False
  then show ?thesis by (intro frame_refl) (simp add: processAppMiddlewares_def)
next
  case True
  show ?thesis
  proof (cases "project_require e (serverRoot t)")
    case (Inl err)
    with True show ?thesis by (intro frame_refl) (simp add: processAppMiddlewares_def)
  next
    case (Inr v)
    show ?thesis
    proof (cases v)
      case JSOther
      with True Inr show ?thesis by (intro frame_refl) (simp add: processAppMiddlewares_def)
    next
      case (JSFunction name len mounts out)
      show ?thesis
      proof (cases "len = 3")
        case True
        have "fst (processAppMiddlewares e opts t) =
           t\<lparr>app := app t @ [Handler name], trace := trace t @ [AppUse (Handler name)]\<rparr>"
          using \<open>project_has e (serverRoot t)\<close> Inr JSFunction True
          by (simp add: processAppMiddlewares_def prims)
        moreover have "list_all is_module_action [AppUse (Handler name)]" by simp
        ultimately show ?thesis by blast
      next
        case False
        have "fst (processAppMiddlewares e opts t) =
           t\<lparr>app := app t @ mounts, trace := trace t @ [ServerCall name (app t) opts]\<rparr>"
          using \<open>project_has e (serverRoot t)\<close> Inr JSFunction False
          by (simp add: processAppMiddlewares_def prims)
        moreover have "list_all is_module_action [ServerCall name (app t) opts]" by simp
        ultimately show ?thesis by blast
      qed
    qed
  qed
qed


lemma createHttpsServer_cases:
  "(\<exists>err. createHttpsServer e t = (t, Inl err))
   \<or> (\<exists>srv. createHttpsServer e t = (t\<lparr>trace := trace t @ [CreateServer srv]\<rparr>, Inr srv))"
  by (auto simp: createHttpsServer_def Let_def prims split: sum.splits)

lemma setupHttpServer_cases:
  "(\<exists>err. setupHttpServer e t = (t, Some err) \<and> ssl (startOptions t))
   \<or> (\<exists>srv. setupHttpServer e t =
         (t\<lparr>trace := trace t @ [CreateServer srv], httpServer := Some srv,
            sockets := [], nextSocketId := 0\<rparr>, None))"
proof (cases "ssl (startOptions t)")
  case False
  then show ?thesis by (auto simp add: setupHttpServer_def prims)
next
  case True
  from createHttpsServer_cases [of e t] show ?thesis
  proof
    assume "\<exists>err. createHttpsServer e t = (t, Inl err)"
    with True show ?thesis by (auto simp: setupHttpServer_def)
  next
    assume "\<exists>srv. createHttpsServer e t = (t\<lparr>trace := trace t @ [CreateServer srv]\<rparr>, Inr srv)"
    with True show ?thesis by (auto simp: setupHttpServer_def)
  qed
qed

lemma listen_catch:
  assumes "httpServer t = Some srv"
  shows "catch_p (listen e p h t) (\<lambda>err t. (t, Throws (SilentError m))) =
     (t\<lparr>trace := trace t @ Listen p h #
          (if listen_outcome e = Resolves then [Emit ''listening''] else [])\<rparr>,
      (case listen_outcome e of
         Resolves \<Rightarrow> Resolves
       | Hangs \<Rightarrow> Hangs
       | Rejects err \<Rightarrow> Rejects (SilentError m)
       | Throws err \<Rightarrow> Rejects (SilentError m)))"
  using assms by (cases "listen_outcome e") (simp_all add: listen_def prims)

lemma processAppMiddlewares_httpServer:
  "httpServer (fst (processAppMiddlewares e opts t)) = httpServer t"
proof -
  obtain ms as where "fst (processAppMiddlewares e opts t) = t\<lparr>app := app t @ ms, trace := trace t @ as\<rparr>"
    using processAppMiddlewares_frame by blast
  then show ?thesis by simp
qed

lemma chain_shape:
  assumes srv: "httpServer t = Some srv"
  shows "\<exists>ms as. list_all is_module_action as \<and>
     then_p
       (then_p
          (then_p (t, Resolves) (processAppMiddlewares e opts))
          (processAddonMiddlewares e opts))
       (\<lambda>t. catch_p (listen e p h t) (\<lambda>err t. (t, Throws (SilentError m))))
     = (if snd (processAppMiddlewares e opts t) \<noteq> Resolves
        then (t\<lparr>app := app t @ ms, trace := trace t @ as\<rparr>,
              settle (snd (processAppMiddlewares e opts t)))
        else if series_outcome (addons e) \<noteq> Resolves
        then (t\<lparr>app := app t @ ms @ series_mounts (addons e),
                trace := trace t @ as @
                  InitializeAddons # hook_calls opts (app t @ ms) (addons e)\<rparr>,
              series_outcome (addons e))
        else (t\<lparr>app := app t @ ms @ series_mounts (addons e),
                trace := trace t @ as @
                  InitializeAddons # hook_calls opts (app t @ ms) (addons e) @
                  Listen p h #
                  (if listen_outcome e = Resolves then [Emit ''listening''] else [])\<rparr>,
              (case listen_outcome e of
                 Resolves \<Rightarrow> Resolves
               | Hangs \<Rightarrow> Hangs
               | Rejects err \<Rightarrow> Rejects (SilentError m)
               | Throws err \<Rightarrow> Rejects (SilentError m))))"
proof -
  obtain ms as where f: "fst (processAppMiddlewares e opts t) =
      t\<lparr>app := app t @ ms, trace := trace t @ as\<rparr>" and m: "list_all is_module_action as"
    using processAppMiddlewares_frame by blast
  define t4 where "t4 = t\<lparr>app := app t @ ms, trace := trace t @ as\<rparr>"
  have s4: "httpServer t4 = Some srv" by (simp add: t4_def srv)
  define t5 where "t5 = t4\<lparr>app := app t4 @ series_mounts (addons e),
        trace := trace t4 @ InitializeAddons # hook_calls opts (app t4) (addons e)\<rparr>"
  have s5: "httpServer t5 = Some srv" by (simp add: t5_def s4)
  show ?thesis
  proof (intro exI conjI)
    show "list_all is_module_action as" by (rule m)
  next
    show "then_p
       (then_p
          (then_p (t, Resolves) (processAppMiddlewares e opts))
          (processAddonMiddlewares e opts))
       (\<lambda>t. catch_p (listen e p h t) (\<lambda>err t. (t, Throws (SilentError m))))
     = (if snd (processAppMiddlewares e opts t) \<noteq> Resolves
        then (t\<lparr>app := app t @ ms, trace := trace t @ as\<rparr>,
              settle (snd (processAppMiddlewares e opts t)))
        else if series_outcome (addons e) \<noteq> Resolves
        then (t\<lparr>app := app t @ ms @ series_mounts (addons e),
                trace := trace t @ as @
                  InitializeAddons # hook_calls opts (app t @ ms) (addons e)\<rparr>,
              series_outcome (addons e))
        else (t\<lparr>app := app t @ ms @ series_mounts (addons e),
                trace := trace t @ as @
                  InitializeAddons # hook_calls opts (app t @ ms) (addons e) @
                  Listen p h #
                  (if listen_outcome e = Resolves then [Emit ''listening''] else [])\<rparr>,
              (case listen_outcome e of
                 Resolves \<Rightarrow> Resolves
               | Hangs \<Rightarrow> Hangs
               | Rejects err \<Rightarrow> Rejects (SilentError m)
               | Throws err \<Rightarrow> Rejects (SilentError m))))"
    proof (cases "snd (processAppMiddlewares e opts t) = Resolves")
      case False
      then show ?thesis
        by (cases "snd (processAppMiddlewares e opts t)") (simp_all add: f)
    next
      case True
      note mres = this
      show ?thesis
      proof (cases "series_outcome (addons e) = Resolves")
        case False
        then show ?thesis
          by (cases "series_outcome (addons e)")
             (simp_all add: mres f processAddonMiddlewares_eq)
      next
        case True
        have "httpServer (t\<lparr>app := app t @ ms @ series_mounts (addons e),
                trace := trace t @ as @
                  InitializeAddons # hook_calls opts (app t @ ms) (addons e)\<rparr>) = Some srv"
          by (simp add: srv)
        from listen_catch [OF this, of e p h m] True mres show ?thesis
          by (cases "listen_outcome e") (simp_all add: f processAddonMiddlewares_eq)
      qed
    qed
  qed
qed

subsection \<open>Starting\<close>

lemma processAppMiddlewares_snd_cong:
  "serverRoot t' = serverRoot t \<Longrightarrow>
   snd (processAppMiddlewares e opts' t') = snd (processAppMiddlewares e opts t)"
  by (simp add: processAppMiddlewares_def split: sum.splits js_value.splits)

lemma startHttpServer_setup_fails:
  assumes "setupHttpServer e (t\<lparr>app := [Compression], trace := trace t @ [Express, AppUse Compression]\<rparr>)
     = (t', Some err)"
  shows "startHttpServer e t = (t', Throws err)"
  using assms by (simp add: startHttpServer_def prims)

lemma startHttpServer_shape:
  "(\<exists>err. ssl (startOptions t) \<and>
      setupHttpServer e (t\<lparr>app := [Compression], trace := trace t @ [Express, AppUse Compression]\<rparr>)
        = (t\<lparr>app := [Compression], trace := trace t @ [Express, AppUse Compression]\<rparr>, Some err) \<and>
      startHttpServer e t =
        (t\<lparr>app := [Compression], trace := trace t @ [Express, AppUse Compression]\<rparr>, Throws err))
   \<or> (\<exists>srv ms as. list_all is_module_action as \<and>
          startHttpServer e t =
            start_shape e t srv ms as (snd (processAppMiddlewares e (startOptions t) t)))"
proof -
  define c where "c = t\<lparr>app := [Compression], trace := trace t @ [Express, AppUse Compression]\<rparr>"
  from setupHttpServer_cases [of e c] show ?thesis
  proof
    assume "\<exists>err. setupHttpServer e c = (c, Some err) \<and> ssl (startOptions c)"
    then obtain err where s: "setupHttpServer e c = (c, Some err)" and l: "ssl (startOptions c)"
      by blast
    from s have "startHttpServer e t = (c, Throws err)"
      unfolding c_def by (rule startHttpServer_setup_fails)
    with s l show ?thesis unfolding c_def by auto
  next
    assume "\<exists>srv. setupHttpServer e c =
         (c\<lparr>trace := trace c @ [CreateServer srv], httpServer := Some srv,
            sockets := [], nextSocketId := 0\<rparr>, None)"
    then obtain srv where s: "setupHttpServer e c =
         (c\<lparr>trace := trace c @ [CreateServer srv], httpServer := Some srv,
            sockets := [], nextSocketId := 0\<rparr>, None)" by blast
    define opts where "opts = (startOptions t)\<lparr>opt_httpServer := Some srv\<rparr>"
    define t3 where "t3 = c\<lparr>trace := trace c @ [CreateServer srv], httpServer := Some srv,
            sockets := [], nextSocketId := 0, startOptions := opts\<rparr>"
    have h3: "httpServer t3 = Some srv" by (simp add: t3_def)
    have st: "startHttpServer e t =
       then_p
         (then_p
            (then_p (t3, Resolves) (processAppMiddlewares e opts))
            (processAddonMiddlewares e opts))
         (\<lambda>t. catch_p (listen e (port opts) (host opts) t)
                 (\<lambda>err t. (t, Throws (SilentError (bind_message opts)))))"
      using s unfolding c_def t3_def opts_def
      by (simp add: startHttpServer_def prims Let_def)
    from chain_shape [OF h3, of e opts "port opts" "host opts" "bind_message opts"]
    obtain ms as where m: "list_all is_module_action as" and
      ch: "then_p
         (then_p
            (then_p (t3, Resolves) (processAppMiddlewares e opts))
            (processAddonMiddlewares e opts))
         (\<lambda>t. catch_p (listen e (port opts) (host opts) t)
                 (\<lambda>err t. (t, Throws (SilentError (bind_message opts)))))
       = (if snd (processAppMiddlewares e opts t3) \<noteq> Resolves
        then (t3\<lparr>app := app t3 @ ms, trace := trace t3 @ as\<rparr>,
              settle (snd (processAppMiddlewares e opts t3)))
        else if series_outcome (addons e) \<noteq> Resolves
        then (t3\<lparr>app := app t3 @ ms @ series_mounts (addons e),
                trace := trace t3 @ as @
                  InitializeAddons # hook_calls opts (app t3 @ ms) (addons e)\<rparr>,
              series_outcome (addons e))
        else (t3\<lparr>app := app t3 @ ms @ series_mounts (addons e),
                trace := trace t3 @ as @
                  InitializeAddons # hook_calls opts (app t3 @ ms) (addons e) @
                  Listen (port opts) (host opts) #
                  (if listen_outcome e = Resolves then [Emit ''listening''] else [])\<rparr>,
              (case listen_outcome e of
                 Resolves \<Rightarrow> Resolves
               | Hangs \<Rightarrow> Hangs
               | Rejects err \<Rightarrow> Rejects (SilentError (bind_message opts))
               | Throws err \<Rightarrow> Rejects (SilentError (bind_message opts)))))"
      by blast
    have mo: "snd (processAppMiddlewares e opts t3) = snd (processAppMiddlewares e (startOptions t) t)"
      by (rule processAppMiddlewares_snd_cong) (simp add: t3_def c_def)
    have "startHttpServer e t =
            start_shape e t srv ms as (snd (processAppMiddlewares e (startOptions t) t))"
      unfolding st ch mo
      by (cases "listen_outcome e")
         (simp_all add: start_shape_def bind_outcome_def Let_def t3_def c_def opts_def)
    with m show ?thesis by blast
  qed
qed


lemma new_actions_append [simp]:
  "trace t' = trace t @ xs \<Longrightarrow> new_actions t t' = xs"
  by (simp add: new_actions_def)

lemma hook_calls_all: "list_all is_hook_call (hook_calls opts ap as)"
  by (induction as arbitrary: ap) (auto split: option.splits)

lemma filter_hook_calls [simp]:
  "filter is_hook_call (hook_calls opts ap as) = hook_calls opts ap as"
  using hook_calls_all [of opts ap as] by (simp add: list_all_iff)

lemma hook_calls_no_module [simp]:
  "a \<in> set (hook_calls opts ap as) \<Longrightarrow> \<not> is_module_action a"
  using hook_calls_all [of opts ap as] by (cases a) (auto simp: list_all_iff)

lemma hook_calls_no_listen [simp]:
  "a \<in> set (hook_calls opts ap as) \<Longrightarrow> \<not> is_listen a"
  using hook_calls_all [of opts ap as] by (cases a) (auto simp: list_all_iff)

lemma hook_calls_no_init [simp]: "InitializeAddons \<notin> set (hook_calls opts ap as)"
  using hook_calls_all [of opts ap as] by (auto simp: list_all_iff)

lemma module_no_hook:
  "list_all is_module_action as \<Longrightarrow> a \<in> set as \<Longrightarrow> \<not> is_hook_call a \<and> \<not> is_listen a \<and> a \<noteq> InitializeAddons"
  by (cases a) (auto simp: list_all_iff)

lemma module_filter_hook [simp]:
  "list_all is_module_action as \<Longrightarrow> filter is_hook_call as = []"
  by (auto simp: filter_empty_conv dest: module_no_hook)

lemma module_filter_listen [simp]:
  "list_all is_module_action as \<Longrightarrow> filter is_listen as = []"
  by (auto simp: filter_empty_conv dest: module_no_hook)

lemma hook_calls_filter_listen [simp]:
  "filter is_listen (hook_calls opts ap as) = []"
  by (auto simp: filter_empty_conv)


lemma startHttpServer_cases [case_names Throws Chain]:
  obtains (Throws) err where
      "ssl (startOptions t)"
      "setupHttpServer e (t\<lparr>app := [Compression], trace := trace t @ [Express, AppUse Compression]\<rparr>)
        = (t\<lparr>app := [Compression], trace := trace t @ [Express, AppUse Compression]\<rparr>, Some err)"
      "startHttpServer e t =
        (t\<lparr>app := [Compression], trace := trace t @ [Express, AppUse Compression]\<rparr>, Throws err)"
  | (Chain) srv ms as where
      "list_all is_module_action as"
      "startHttpServer e t =
         start_shape e t srv ms as (snd (processAppMiddlewares e (startOptions t) t))"
  using startHttpServer_shape [of t e] by blast

lemma startHttpServer_app_trace:
  "\<exists>rest more. app (fst (startHttpServer e t)) = Compression # rest
       \<and> trace (fst (startHttpServer e t)) = trace t @ Express # AppUse Compression # more"
proof (cases rule: startHttpServer_cases [of t e])
  case (Throws err)
  then show ?thesis by simp
next
  case (Chain srv ms as)
  then show ?thesis by (simp add: start_shape_def Let_def)
qed

lemma setupHttpServer_tls_missing:
  assumes "ssl (startOptions t)"
    and "\<not> existsSync e (sslKey (startOptions t)) \<or> \<not> existsSync e (sslCert (startOptions t))"
  shows "setupHttpServer e t =
     (t, Some (TypeError (if \<not> existsSync e (sslKey (startOptions t))
                          then sslKey_message (sslKey (startOptions t))
                          else sslCert_message (sslCert (startOptions t)))))"
  using assms by (auto simp: setupHttpServer_def createHttpsServer_def Let_def)

lemma startHttpServer_tls_missing:
  assumes "ssl (startOptions t)"
    and "\<not> existsSync e (sslKey (startOptions t)) \<or> \<not> existsSync e (sslCert (startOptions t))"
  shows "startHttpServer e t =
     (t\<lparr>app := [Compression], trace := trace t @ [Express, AppUse Compression]\<rparr>,
      Throws (TypeError (if \<not> existsSync e (sslKey (startOptions t))
                          then sslKey_message (sslKey (startOptions t))
                          else sslCert_message (sslCert (startOptions t)))))"
proof -
  let ?c = "t\<lparr>app := [Compression], trace := trace t @ [Express, AppUse Compression]\<rparr>"
  have "ssl (startOptions ?c)" using assms(1) by simp
  moreover have "\<not> existsSync e (sslKey (startOptions ?c)) \<or> \<not> existsSync e (sslCert (startOptions ?c))"
    using assms(2) by simp
  ultimately have "setupHttpServer e ?c =
     (?c, Some (TypeError (if \<not> existsSync e (sslKey (startOptions ?c))
                          then sslKey_message (sslKey (startOptions ?c))
                          else sslCert_message (sslCert (startOptions ?c)))))"
    by (rule setupHttpServer_tls_missing)
  then have "startHttpServer e t = (?c, Throws (TypeError (if \<not> existsSync e (sslKey (startOptions ?c))
                          then sslKey_message (sslKey (startOptions ?c))
                          else sslCert_message (sslCert (startOptions ?c)))))"
    by (rule startHttpServer_setup_fails)
  then show ?thesis by simp
qed

text \<open>
  C5. When \<^verbatim>\<open>ssl\<close> is set and the key file or the certificate file does not exist,
  \<^verbatim>\<open>start\<close> throws a \<open>TypeError\<close> (the configuration error of the task) whose message
  contains the missing path, the key's when the key is missing and the certificate's
  otherwise. Up to then the task has registered its watcher handlers, created the
  application and mounted the compression: no server was created, \<^verbatim>\<open>listen\<close> was not
  called, and the stored server and the sockets are as before.
\<close>

theorem start_tls_missing:
  assumes "ssl opts"
    and "\<not> existsSync e (sslKey opts) \<or> \<not> existsSync e (sslCert opts)"
  shows "snd (start e opts t) =
       Throws (TypeError (if \<not> existsSync e (sslKey opts) then sslKey_message (sslKey opts)
                          else sslCert_message (sslCert opts)))
     \<and> sublist (sslKey opts) (sslKey_message (sslKey opts))
     \<and> sublist (sslCert opts) (sslCert_message (sslCert opts))
     \<and> new_actions t (fst (start e opts t)) =
         (if serverWatcher t then [WatcherOn Change, WatcherOn Add, WatcherOn Delete] else [])
         @ [Express, AppUse Compression]
     \<and> \<not> list_ex is_listen (new_actions t (fst (start e opts t)))
     \<and> httpServer (fst (start e opts t)) = httpServer t
     \<and> sockets (fst (start e opts t)) = sockets t"
proof -
  define t2 where "t2 = watch (t\<lparr>startOptions := opts\<rparr>)"
  have o2: "startOptions t2 = opts" by (simp add: t2_def watch_def prims)
  have "startHttpServer e t2 =
     (t2\<lparr>app := [Compression], trace := trace t2 @ [Express, AppUse Compression]\<rparr>,
      Throws (TypeError (if \<not> existsSync e (sslKey (startOptions t2))
                          then sslKey_message (sslKey (startOptions t2))
                          else sslCert_message (sslCert (startOptions t2)))))"
    using assms by (intro startHttpServer_tls_missing) (simp_all add: o2)
  then have st: "start e opts t =
     (t2\<lparr>app := [Compression], trace := trace t2 @ [Express, AppUse Compression]\<rparr>,
      Throws (TypeError (if \<not> existsSync e (sslKey opts) then sslKey_message (sslKey opts)
                          else sslCert_message (sslCert opts))))"
    by (simp add: start_def t2_def [symmetric] o2)
  have k: "sublist (sslKey opts) (sslKey_message (sslKey opts))"
    unfolding sslKey_message_def
    by (metis append.assoc sublist_appendI)
  have c: "sublist (sslCert opts) (sslCert_message (sslCert opts))"
    unfolding sslCert_message_def
    by (metis append.assoc sublist_appendI)
  have tr: "trace (fst (start e opts t)) = trace t @
      (if serverWatcher t then [WatcherOn Change, WatcherOn Add, WatcherOn Delete] else [])
         @ [Express, AppUse Compression]"
    by (simp add: st t2_def watch_def prims)
  show ?thesis
    using k c tr by (simp add: st) (simp add: t2_def watch_def prims)
qed

text \<open>
  C6. When the project has a server module: an export that is not a function makes
  \<^verbatim>\<open>processAppMiddlewares\<close> throw a \<open>TypeError\<close>, and the start without TLS is then
  rejected with it before any \<^verbatim>\<open>listen\<close>; a function of length 3 is mounted on the
  application as a handler and is not called; a function of any other length is called
  with the application and the options, and what it returns is the result of the phase.
\<close>

theorem processAppMiddlewares_shapes:
  assumes "project_has e (serverRoot t)"
  shows "(project_require e (serverRoot t) = Inr JSOther \<longrightarrow>
            processAppMiddlewares e opts t = (t, Throws (TypeError server_entry_message)))
      \<and> (project_require e (serverRoot t) = Inr (JSFunction name 3 mounts out) \<longrightarrow>
            snd (processAppMiddlewares e opts t) = Resolves
          \<and> app (fst (processAppMiddlewares e opts t)) = app t @ [Handler name]
          \<and> new_actions t (fst (processAppMiddlewares e opts t)) = [AppUse (Handler name)])
      \<and> (project_require e (serverRoot t) = Inr (JSFunction name len mounts out) \<and> len \<noteq> 3 \<longrightarrow>
            snd (processAppMiddlewares e opts t) = out
          \<and> app (fst (processAppMiddlewares e opts t)) = app t @ mounts
          \<and> new_actions t (fst (processAppMiddlewares e opts t)) = [ServerCall name (app t) opts])
      \<and> (project_require e (serverRoot t) = Inr JSOther \<and> \<not> ssl (startOptions t) \<longrightarrow>
            snd (startHttpServer e t) = Rejects (TypeError server_entry_message)
          \<and> \<not> list_ex is_listen (new_actions t (fst (startHttpServer e t))))"
proof (intro conjI impI)
  assume "project_require e (serverRoot t) = Inr JSOther"
  with assms show "processAppMiddlewares e opts t = (t, Throws (TypeError server_entry_message))"
    by (simp add: processAppMiddlewares_def)
next
  assume r: "project_require e (serverRoot t) = Inr (JSFunction name 3 mounts out)"
  with assms show "snd (processAppMiddlewares e opts t) = Resolves"
    by (simp add: processAppMiddlewares_def)
  from assms r show "app (fst (processAppMiddlewares e opts t)) = app t @ [Handler name]"
    by (simp add: processAppMiddlewares_def prims)
  from assms r show "new_actions t (fst (processAppMiddlewares e opts t)) = [AppUse (Handler name)]"
    by (simp add: processAppMiddlewares_def prims)
next
  assume r: "project_require e (serverRoot t) = Inr (JSFunction name len mounts out) \<and> len \<noteq> 3"
  with assms show "snd (processAppMiddlewares e opts t) = out"
    by (simp add: processAppMiddlewares_def)
  from assms r show "app (fst (processAppMiddlewares e opts t)) = app t @ mounts"
    by (simp add: processAppMiddlewares_def prims)
  from assms r show "new_actions t (fst (processAppMiddlewares e opts t)) = [ServerCall name (app t) opts]"
    by (simp add: processAppMiddlewares_def prims)
next
  assume r: "project_require e (serverRoot t) = Inr JSOther \<and> \<not> ssl (startOptions t)"
  with assms have m: "snd (processAppMiddlewares e (startOptions t) t) = Throws (TypeError server_entry_message)"
    by (simp add: processAppMiddlewares_def)
  show "snd (startHttpServer e t) = Rejects (TypeError server_entry_message)"
  proof (cases rule: startHttpServer_cases [of t e])
    case (Throws err)
    with r show ?thesis by simp
  next
    case (Chain srv ms as)
    then show ?thesis by (simp add: m start_shape_def Let_def)
  qed
  show "\<not> list_ex is_listen (new_actions t (fst (startHttpServer e t)))"
  proof (cases rule: startHttpServer_cases [of t e])
    case (Throws err)
    with r show ?thesis by simp
  next
    case (Chain srv ms as)
    then have "trace (fst (startHttpServer e t)) =
       trace t @ [Express, AppUse Compression, CreateServer srv] @ as"
      by (simp add: m start_shape_def Let_def)
    then have "new_actions t (fst (startHttpServer e t)) =
       [Express, AppUse Compression, CreateServer srv] @ as"
      by (rule new_actions_append)
    with Chain(1) show ?thesis
      by (auto simp: list_ex_iff dest: module_no_hook)
  qed
qed

lemma bind_message_httpServer [simp]:
  "bind_message (opts\<lparr>opt_httpServer := x\<rparr>) = bind_message opts"
  by (simp add: bind_message_def)

lemma start_shape_listen:
  assumes "list_all is_module_action as"
    and "list_ex is_listen (new_actions t (fst (start_shape e t srv ms as mout)))"
  shows "mout = Resolves \<and> series_outcome (addons e) = Resolves"
proof (rule ccontr)
  assume n: "\<not> (mout = Resolves \<and> series_outcome (addons e) = Resolves)"
  have "\<exists>hs. trace (fst (start_shape e t srv ms as mout)) =
       trace t @ [Express, AppUse Compression, CreateServer srv] @ as @ hs
       \<and> (\<forall>a \<in> set hs. \<not> is_listen a)"
  proof (cases "mout = Resolves")
    case False
    then have "trace (fst (start_shape e t srv ms as mout)) =
       trace t @ [Express, AppUse Compression, CreateServer srv] @ as @ []"
      by (simp add: start_shape_def Let_def)
    then show ?thesis by (metis empty_iff list.set(1))
  next
    case True
    with n have "series_outcome (addons e) \<noteq> Resolves" by simp
    with True have "trace (fst (start_shape e t srv ms as mout)) =
       trace t @ [Express, AppUse Compression, CreateServer srv] @ as @
       (InitializeAddons # hook_calls ((startOptions t)\<lparr>opt_httpServer := Some srv\<rparr>)
           (Compression # ms) (addons e))"
      by (simp add: start_shape_def Let_def)
    moreover have "\<forall>a \<in> set (InitializeAddons # hook_calls ((startOptions t)\<lparr>opt_httpServer := Some srv\<rparr>)
           (Compression # ms) (addons e)). \<not> is_listen a"
      by auto
    ultimately show ?thesis by blast
  qed
  then obtain hs where tr: "trace (fst (start_shape e t srv ms as mout)) =
       trace t @ [Express, AppUse Compression, CreateServer srv] @ as @ hs"
    and nl: "\<forall>a \<in> set hs. \<not> is_listen a" by blast
  from tr have "new_actions t (fst (start_shape e t srv ms as mout)) =
     [Express, AppUse Compression, CreateServer srv] @ as @ hs"
    by (rule new_actions_append)
  with assms(2) nl assms(1) show False
    by (auto simp: list_ex_iff dest: module_no_hook)
qed


lemma watch_frame:
  "watch (t\<lparr>startOptions := opts\<rparr>) =
     t\<lparr>startOptions := opts,
       trace := trace t @
         (if serverWatcher t then [WatcherOn Change, WatcherOn Add, WatcherOn Delete] else [])\<rparr>"
  by (simp add: watch_def prims)

lemma start_shape_trace:
  "\<exists>xs. trace (fst (start_shape e t srv ms as mout)) = trace t @ xs"
  by (simp add: start_shape_def Let_def)


lemma start_fst:
  "fst (start e opts t) =
     (if snd (startHttpServer e (watch (t\<lparr>startOptions := opts\<rparr>))) = Resolves
      then writeLine (serving_message e
              (startOptions (fst (startHttpServer e (watch (t\<lparr>startOptions := opts\<rparr>))))))
             (fst (startHttpServer e (watch (t\<lparr>startOptions := opts\<rparr>))))
      else fst (startHttpServer e (watch (t\<lparr>startOptions := opts\<rparr>))))"
  by (cases "startHttpServer e (watch (t\<lparr>startOptions := opts\<rparr>))")
     (auto simp: start_def split: outcome.splits)

lemma start_snd:
  "snd (start e opts t) = snd (startHttpServer e (watch (t\<lparr>startOptions := opts\<rparr>)))"
  by (cases "startHttpServer e (watch (t\<lparr>startOptions := opts\<rparr>))")
     (auto simp: start_def split: outcome.splits)

text \<open>
  C9, as amended. When \<^verbatim>\<open>start\<close> reaches \<^verbatim>\<open>listen\<close> and the binding fails, by an
  \<^verbatim>\<open>error\<close> event or by an exception of \<^verbatim>\<open>server.listen\<close>, the promise of
  \<^verbatim>\<open>start\<close> is rejected with a \<open>SilentError\<close> whose message names the host and the
  port and not the cause; \<^verbatim>\<open>listen\<close> was called once; neither the \<^verbatim>\<open>listening\<close>
  event nor the status line was emitted. The server created for the attempt stays in
  \<^verbatim>\<open>httpServer\<close>, with an empty socket registry.
\<close>

theorem start_bind_failure:
  assumes reached: "list_ex is_listen (new_actions t (fst (start e opts t)))"
    and fails: "listen_outcome e = Rejects err \<or> listen_outcome e = Throws err"
  shows "snd (start e opts t) = Rejects (SilentError (bind_message opts))
     \<and> filter is_listen (new_actions t (fst (start e opts t))) = [Listen (port opts) (host opts)]
     \<and> (\<exists>srv. httpServer (fst (start e opts t)) = Some srv)
     \<and> sockets (fst (start e opts t)) = []
     \<and> (\<forall>a \<in> set (new_actions t (fst (start e opts t))).
           a \<noteq> Emit ''listening'' \<and> a \<noteq> WriteLine (serving_message e (startOptions (fst (start e opts t)))))"
proof -
  define ws where "ws = (if serverWatcher t then [WatcherOn Change, WatcherOn Add, WatcherOn Delete] else [])"
  define t2 where "t2 = watch (t\<lparr>startOptions := opts\<rparr>)"
  have t2: "t2 = t\<lparr>startOptions := opts, trace := trace t @ ws\<rparr>"
    unfolding t2_def ws_def by (rule watch_frame)
  have wsl: "\<forall>a \<in> set ws. \<not> is_listen a" by (auto simp: ws_def)
  show ?thesis
  proof (cases rule: startHttpServer_cases [of t2 e])
    case (Throws x)
    then have "fst (start e opts t) =
        t2\<lparr>app := [Compression], trace := trace t2 @ [Express, AppUse Compression]\<rparr>"
      by (simp add: start_fst t2_def [symmetric])
    then have "trace (fst (start e opts t)) = trace t @ ws @ [Express, AppUse Compression]"
      by (simp add: t2)
    then have "new_actions t (fst (start e opts t)) = ws @ [Express, AppUse Compression]"
      by (rule new_actions_append)
    with reached wsl show ?thesis by (auto simp: list_ex_iff)
  next
    case (Chain srv ms as)
    define mout where "mout = snd (processAppMiddlewares e (startOptions t2) t2)"
    note sh = Chain(2) [folded mout_def]
    obtain xs where xs: "trace (fst (start_shape e t2 srv ms as mout)) = trace t2 @ xs"
      using start_shape_trace by blast
    define wl where "wl = (if snd (start_shape e t2 srv ms as mout) = Resolves
       then [WriteLine (serving_message e (startOptions (fst (start_shape e t2 srv ms as mout))))]
       else [])"
    have "trace (fst (start e opts t)) = trace t @ ws @ xs @ wl"
      by (simp add: start_fst t2_def [symmetric] sh xs prims wl_def) (simp add: t2)
    then have na: "new_actions t (fst (start e opts t)) = ws @ xs @ wl"
      by (rule new_actions_append)
    have "\<forall>a \<in> set wl. \<not> is_listen a" by (simp add: wl_def)
    with reached na wsl have "list_ex is_listen xs" by (auto simp: list_ex_iff)
    moreover from xs have "new_actions t2 (fst (start_shape e t2 srv ms as mout)) = xs"
      by (rule new_actions_append)
    ultimately have "list_ex is_listen (new_actions t2 (fst (start_shape e t2 srv ms as mout)))"
      by simp
    with Chain(1) have r: "mout = Resolves \<and> series_outcome (addons e) = Resolves"
      by (rule start_shape_listen)
    from fails have lo: "listen_outcome e \<noteq> Resolves" by auto
    have bo: "bind_outcome e ((startOptions t2)\<lparr>opt_httpServer := Some srv\<rparr>) =
        Rejects (SilentError (bind_message opts))"
      using fails by (auto simp: bind_outcome_def t2)
    have shape: "start_shape e t2 srv ms as mout =
       (t2\<lparr>startOptions := (startOptions t2)\<lparr>opt_httpServer := Some srv\<rparr>,
           httpServer := Some srv, sockets := [], nextSocketId := 0,
           app := Compression # ms @ series_mounts (addons e),
           trace := trace t2 @ [Express, AppUse Compression, CreateServer srv] @ as @
              InitializeAddons # hook_calls ((startOptions t2)\<lparr>opt_httpServer := Some srv\<rparr>)
                 (Compression # ms) (addons e) @ [Listen (port opts) (host opts)]\<rparr>,
        Rejects (SilentError (bind_message opts)))"
      using r lo bo by (simp add: start_shape_def Let_def) (simp add: t2)
    have xs_eq: "xs = [Express, AppUse Compression, CreateServer srv] @ as @
              InitializeAddons # hook_calls ((startOptions t2)\<lparr>opt_httpServer := Some srv\<rparr>)
                 (Compression # ms) (addons e) @ [Listen (port opts) (host opts)]"
      using xs by (simp add: shape)
    have wl_eq: "wl = []" by (simp add: wl_def shape)
    have 1: "snd (start e opts t) = Rejects (SilentError (bind_message opts))"
      by (simp add: start_snd t2_def [symmetric] sh shape)
    have fs: "fst (start e opts t) = fst (start_shape e t2 srv ms as mout)"
      by (simp add: start_fst t2_def [symmetric] sh shape)
    have 2: "filter is_listen (new_actions t (fst (start e opts t))) = [Listen (port opts) (host opts)]"
      using Chain(1) by (simp add: na xs_eq wl_eq ws_def)
    have 3: "\<exists>s. httpServer (fst (start e opts t)) = Some s"
      by (simp add: fs shape)
    have 4: "sockets (fst (start e opts t)) = []"
      by (simp add: fs shape)
    have 5: "\<forall>a \<in> set (new_actions t (fst (start e opts t))).
           a \<noteq> Emit ''listening'' \<and> a \<noteq> WriteLine (serving_message e (startOptions (fst (start e opts t))))"
      using Chain(1) hook_calls_all [of "(startOptions t2)\<lparr>opt_httpServer := Some srv\<rparr>" "Compression # ms" "addons e"]
      by (auto simp: na xs_eq wl_eq ws_def list_all_iff)
    from 1 2 3 4 5 show ?thesis by blast
  qed
qed


lemma hook_calls_append:
  "series_outcome as = Resolves \<Longrightarrow>
   hook_calls opts ap (as @ bs) = hook_calls opts ap as @ hook_calls opts (ap @ series_mounts as) bs"
  by (induction as arbitrary: ap) (auto split: option.splits if_splits)

lemma series_outcome_append:
  "series_outcome as = Resolves \<Longrightarrow> series_outcome (as @ bs) = series_outcome bs"
  by (induction as) (auto split: option.splits if_splits)

lemma hook_calls_stop:
  assumes "series_outcome as = Resolves" "serverMiddleware a = Some (m, out)" "settle out = Rejects err"
  shows "hook_calls opts ap (as @ a # bs) = hook_calls opts ap (as @ [a])"
    and "series_outcome (as @ a # bs) = Rejects err"
proof -
  from assms(3) have "out \<noteq> Resolves" by auto
  with assms(1,2) show "hook_calls opts ap (as @ a # bs) = hook_calls opts ap (as @ [a])"
    by (simp add: hook_calls_append)
  from assms \<open>out \<noteq> Resolves\<close> show "series_outcome (as @ a # bs) = Rejects err"
    by (simp add: series_outcome_append)
qed

text \<open>The actions of a start that got past the set-up.\<close>

lemma start_shape_actions:
  "new_actions t (fst (start_shape e t srv ms as mout)) =
     [Express, AppUse Compression, CreateServer srv] @ as @
     (if mout \<noteq> Resolves then []
      else InitializeAddons #
           hook_calls ((startOptions t)\<lparr>opt_httpServer := Some srv\<rparr>) (Compression # ms) (addons e) @
           (if series_outcome (addons e) \<noteq> Resolves then []
            else Listen (port (startOptions t)) (host (startOptions t)) #
                 (if listen_outcome e = Resolves then [Emit ''listening''] else [])))"
  by (rule new_actions_append) (simp add: start_shape_def Let_def)

lemma pipeline_hooks:
  "(\<exists>xs ys. new_actions t (fst (startHttpServer e t)) = xs @ ys
        \<and> \<not> list_ex is_hook_call xs \<and> \<not> list_ex is_module_action ys)
   \<and> (list_ex is_hook_call (new_actions t (fst (startHttpServer e t))) \<longrightarrow>
        snd (processAppMiddlewares e (startOptions t) t) = Resolves)
   \<and> (InitializeAddons \<notin> set (new_actions t (fst (startHttpServer e t))) \<longrightarrow>
        filter is_hook_call (new_actions t (fst (startHttpServer e t))) = [])
   \<and> (InitializeAddons \<in> set (new_actions t (fst (startHttpServer e t))) \<longrightarrow>
        (\<exists>ap. filter is_hook_call (new_actions t (fst (startHttpServer e t))) =
                hook_calls (startOptions (fst (startHttpServer e t))) ap (addons e)
            \<and> hd ap = Compression \<and> prefix ap (app (fst (startHttpServer e t)))))
   \<and> (InitializeAddons \<in> set (new_actions t (fst (startHttpServer e t)))
        \<and> addons e = as @ a # bs \<and> series_outcome as = Resolves
        \<and> serverMiddleware a = Some (m, out) \<and> settle out = Rejects err \<longrightarrow>
        snd (startHttpServer e t) = Rejects err
        \<and> \<not> list_ex is_listen (new_actions t (fst (startHttpServer e t)))
        \<and> (\<exists>ap. filter is_hook_call (new_actions t (fst (startHttpServer e t))) =
                hook_calls (startOptions (fst (startHttpServer e t))) ap (as @ [a])))"
proof (cases rule: startHttpServer_cases [of t e])
  case (Throws x)
  then have "trace (fst (startHttpServer e t)) = trace t @ [Express, AppUse Compression]" by simp
  then have na: "new_actions t (fst (startHttpServer e t)) = [Express, AppUse Compression]"
    by (rule new_actions_append)
  have "[Express, AppUse Compression] = [Express, AppUse Compression] @ []
      \<and> \<not> list_ex is_hook_call [Express, AppUse Compression] \<and> \<not> list_ex is_module_action []"
    by simp
  then have "\<exists>xs ys. [Express, AppUse Compression] = xs @ ys
        \<and> \<not> list_ex is_hook_call xs \<and> \<not> list_ex is_module_action ys" by blast
  then show ?thesis by (simp add: na)
next
  case (Chain srv ms ma)
  define mout where "mout = snd (processAppMiddlewares e (startOptions t) t)"
  define opts where "opts = (startOptions t)\<lparr>opt_httpServer := Some srv\<rparr>"
  define hs where "hs = hook_calls opts (Compression # ms) (addons e)"
  define tl where "tl = (if mout \<noteq> Resolves then []
      else InitializeAddons # hs @
           (if series_outcome (addons e) \<noteq> Resolves then []
            else Listen (port (startOptions t)) (host (startOptions t)) #
                 (if listen_outcome e = Resolves then [Emit ''listening''] else [])))"
  note sh = Chain(2) [folded mout_def]
  have na: "new_actions t (fst (startHttpServer e t)) =
     [Express, AppUse Compression, CreateServer srv] @ ma @ tl"
    unfolding sh tl_def hs_def opts_def by (rule start_shape_actions)
  have so: "startOptions (fst (startHttpServer e t)) = opts"
    by (simp add: sh start_shape_def Let_def opts_def)
  have ma_h: "\<not> list_ex is_hook_call ma" and ma_i: "InitializeAddons \<notin> set ma"
    using Chain(1) by (auto simp: list_ex_iff dest: module_no_hook)
  have hs_f: "filter is_hook_call hs = hs" by (simp add: hs_def)
  have tl_m: "\<not> list_ex is_module_action tl"
    by (auto simp: tl_def hs_def list_ex_iff)
  have tl_f: "filter is_hook_call tl = (if mout = Resolves then hs else [])"
    by (simp add: tl_def hs_f)
  have tl_i: "InitializeAddons \<in> set tl \<longleftrightarrow> mout = Resolves"
    by (simp add: tl_def)
  have f: "filter is_hook_call (new_actions t (fst (startHttpServer e t))) =
      (if mout = Resolves then hs else [])"
    using Chain(1) by (simp add: na tl_f)
  have i: "InitializeAddons \<in> set (new_actions t (fst (startHttpServer e t))) \<longleftrightarrow> mout = Resolves"
    using ma_i by (simp add: na tl_i)
  have 1: "\<exists>xs ys. new_actions t (fst (startHttpServer e t)) = xs @ ys
        \<and> \<not> list_ex is_hook_call xs \<and> \<not> list_ex is_module_action ys"
  proof (intro exI conjI)
    show "new_actions t (fst (startHttpServer e t)) =
       ([Express, AppUse Compression, CreateServer srv] @ ma) @ tl" by (simp add: na)
    show "\<not> list_ex is_hook_call ([Express, AppUse Compression, CreateServer srv] @ ma)"
      using ma_h by simp
    show "\<not> list_ex is_module_action tl" by (rule tl_m)
  qed
  have 2: "list_ex is_hook_call (new_actions t (fst (startHttpServer e t))) \<longrightarrow> mout = Resolves"
  proof
    assume "list_ex is_hook_call (new_actions t (fst (startHttpServer e t)))"
    then have "filter is_hook_call (new_actions t (fst (startHttpServer e t))) \<noteq> []"
      by (simp add: list_ex_iff filter_empty_conv)
    with f show "mout = Resolves" by (auto split: if_splits)
  qed
  have 3: "InitializeAddons \<notin> set (new_actions t (fst (startHttpServer e t))) \<longrightarrow>
        filter is_hook_call (new_actions t (fst (startHttpServer e t))) = []"
    by (simp add: i f)
  have ap: "mout = Resolves \<Longrightarrow> prefix (Compression # ms) (app (fst (startHttpServer e t)))"
    by (simp add: sh start_shape_def Let_def)
  have 4: "InitializeAddons \<in> set (new_actions t (fst (startHttpServer e t))) \<longrightarrow>
        (\<exists>ap. filter is_hook_call (new_actions t (fst (startHttpServer e t))) =
                hook_calls (startOptions (fst (startHttpServer e t))) ap (addons e)
            \<and> hd ap = Compression \<and> prefix ap (app (fst (startHttpServer e t))))"
  proof
    assume "InitializeAddons \<in> set (new_actions t (fst (startHttpServer e t)))"
    then have r: "mout = Resolves" by (simp add: i)
    then have "filter is_hook_call (new_actions t (fst (startHttpServer e t))) =
                hook_calls (startOptions (fst (startHttpServer e t))) (Compression # ms) (addons e)"
      by (simp add: f so hs_def)
    moreover have "hd (Compression # ms) = Compression" by simp
    moreover from r have "prefix (Compression # ms) (app (fst (startHttpServer e t)))" by (rule ap)
    ultimately show "\<exists>ap. filter is_hook_call (new_actions t (fst (startHttpServer e t))) =
                hook_calls (startOptions (fst (startHttpServer e t))) ap (addons e)
            \<and> hd ap = Compression \<and> prefix ap (app (fst (startHttpServer e t)))"
      by blast
  qed
  have 5: "InitializeAddons \<in> set (new_actions t (fst (startHttpServer e t)))
        \<and> addons e = as @ a # bs \<and> series_outcome as = Resolves
        \<and> serverMiddleware a = Some (m, out) \<and> settle out = Rejects err \<longrightarrow>
        snd (startHttpServer e t) = Rejects err
        \<and> \<not> list_ex is_listen (new_actions t (fst (startHttpServer e t)))
        \<and> (\<exists>ap. filter is_hook_call (new_actions t (fst (startHttpServer e t))) =
                hook_calls (startOptions (fst (startHttpServer e t))) ap (as @ [a]))"
  proof (intro impI, elim conjE)
    assume a1: "InitializeAddons \<in> set (new_actions t (fst (startHttpServer e t)))"
      and a2: "addons e = as @ a # bs" and a3: "series_outcome as = Resolves"
      and a4: "serverMiddleware a = Some (m, out)" and a5: "settle out = Rejects err"
    from a1 have r: "mout = Resolves" by (simp add: i)
    have se: "series_outcome (addons e) = Rejects err"
      unfolding a2 using a3 a4 a5 by (rule hook_calls_stop(2))
    have hc: "hs = hook_calls opts (Compression # ms) (as @ [a])"
      unfolding hs_def a2 using a3 a4 a5 by (rule hook_calls_stop(1))
    have o: "snd (startHttpServer e t) = Rejects err"
      by (simp add: sh start_shape_def Let_def r se)
    have "tl = InitializeAddons # hs" by (simp add: tl_def r se)
    then have l: "\<not> list_ex is_listen (new_actions t (fst (startHttpServer e t)))"
      using Chain(1) by (auto simp: na list_ex_iff hs_def dest: module_no_hook)
    have "filter is_hook_call (new_actions t (fst (startHttpServer e t))) =
                hook_calls (startOptions (fst (startHttpServer e t))) (Compression # ms) (as @ [a])"
      by (simp add: f r so hc [symmetric])
    with o l show "snd (startHttpServer e t) = Rejects err
        \<and> \<not> list_ex is_listen (new_actions t (fst (startHttpServer e t)))
        \<and> (\<exists>ap. filter is_hook_call (new_actions t (fst (startHttpServer e t))) =
                hook_calls (startOptions (fst (startHttpServer e t))) ap (as @ [a]))"
      by blast
  qed
  from 1 2 3 4 5 show ?thesis unfolding mout_def by blast
qed

lemma setupHttpServer_snd_cong:
  "startOptions t' = startOptions t \<Longrightarrow>
   snd (setupHttpServer e t') = snd (setupHttpServer e t)"
  by (simp add: setupHttpServer_def createHttpsServer_def Let_def split: sum.splits)

lemma processAppMiddlewares_app_cong:
  "serverRoot t' = serverRoot t \<Longrightarrow> app t' = app t \<Longrightarrow>
   app (fst (processAppMiddlewares e opts t')) = app (fst (processAppMiddlewares e opts t))"
  by (simp add: processAppMiddlewares_def prims split: sum.splits js_value.splits)

lemma processAppMiddlewares_actions_cong:
  "serverRoot t' = serverRoot t \<Longrightarrow> app t' = app t \<Longrightarrow>
   new_actions t' (fst (processAppMiddlewares e opts t')) =
   new_actions t (fst (processAppMiddlewares e opts t))"
  by (simp add: processAppMiddlewares_def prims new_actions_def split: sum.splits js_value.splits)

lemma chain_shape_of:
  assumes srv: "httpServer t = Some srv"
    and f: "fst (processAppMiddlewares e opts t) = t\<lparr>app := app t @ ms, trace := trace t @ as\<rparr>"
  shows "then_p
       (then_p
          (then_p (t, Resolves) (processAppMiddlewares e opts))
          (processAddonMiddlewares e opts))
       (\<lambda>t. catch_p (listen e p h t) (\<lambda>err t. (t, Throws (SilentError m))))
     = (if snd (processAppMiddlewares e opts t) \<noteq> Resolves
        then (t\<lparr>app := app t @ ms, trace := trace t @ as\<rparr>,
              settle (snd (processAppMiddlewares e opts t)))
        else if series_outcome (addons e) \<noteq> Resolves
        then (t\<lparr>app := app t @ ms @ series_mounts (addons e),
                trace := trace t @ as @
                  InitializeAddons # hook_calls opts (app t @ ms) (addons e)\<rparr>,
              series_outcome (addons e))
        else (t\<lparr>app := app t @ ms @ series_mounts (addons e),
                trace := trace t @ as @
                  InitializeAddons # hook_calls opts (app t @ ms) (addons e) @
                  Listen p h #
                  (if listen_outcome e = Resolves then [Emit ''listening''] else [])\<rparr>,
              (case listen_outcome e of
                 Resolves \<Rightarrow> Resolves
               | Hangs \<Rightarrow> Hangs
               | Rejects err \<Rightarrow> Rejects (SilentError m)
               | Throws err \<Rightarrow> Rejects (SilentError m))))"
proof (cases "snd (processAppMiddlewares e opts t) = Resolves")
  case False
  then show ?thesis
    by (cases "snd (processAppMiddlewares e opts t)") (simp_all add: f)
next
  case True
  note mres = this
  show ?thesis
  proof (cases "series_outcome (addons e) = Resolves")
    case False
    then show ?thesis
      by (cases "series_outcome (addons e)")
         (simp_all add: mres f processAddonMiddlewares_eq)
  next
    case True
    have "httpServer (t\<lparr>app := app t @ ms @ series_mounts (addons e),
            trace := trace t @ as @
              InitializeAddons # hook_calls opts (app t @ ms) (addons e)\<rparr>) = Some srv"
      by (simp add: srv)
    from listen_catch [OF this, of e p h m] True mres show ?thesis
      by (cases "listen_outcome e") (simp_all add: f processAddonMiddlewares_eq)
  qed
qed

text \<open>A start whose set-up succeeds, with what the server module phase did made explicit.\<close>

lemma startHttpServer_reached:
  assumes ok: "snd (setupHttpServer e t) = None"
  shows "\<exists>srv. startHttpServer e t =
     start_shape e t srv
       (drop 1 (app (fst (processAppMiddlewares e ((startOptions t)\<lparr>opt_httpServer := Some srv\<rparr>)
                       (t\<lparr>app := [Compression]\<rparr>)))))
       (new_actions (t\<lparr>app := [Compression]\<rparr>)
          (fst (processAppMiddlewares e ((startOptions t)\<lparr>opt_httpServer := Some srv\<rparr>)
                  (t\<lparr>app := [Compression]\<rparr>))))
       (snd (processAppMiddlewares e (startOptions t) t))"
proof -
  define c where "c = t\<lparr>app := [Compression], trace := trace t @ [Express, AppUse Compression]\<rparr>"
  have "snd (setupHttpServer e c) = snd (setupHttpServer e t)"
    by (rule setupHttpServer_snd_cong) (simp add: c_def)
  with ok have okc: "snd (setupHttpServer e c) = None" by simp
  from setupHttpServer_cases [of e c] okc
  obtain srv where s: "setupHttpServer e c =
         (c\<lparr>trace := trace c @ [CreateServer srv], httpServer := Some srv,
            sockets := [], nextSocketId := 0\<rparr>, None)" by auto
  define opts where "opts = (startOptions t)\<lparr>opt_httpServer := Some srv\<rparr>"
  define tc where "tc = t\<lparr>app := [Compression]\<rparr>"
  define t3 where "t3 = c\<lparr>trace := trace c @ [CreateServer srv], httpServer := Some srv,
            sockets := [], nextSocketId := 0, startOptions := opts\<rparr>"
  have h3: "httpServer t3 = Some srv" by (simp add: t3_def)
  have a3: "app t3 = [Compression]" by (simp add: t3_def c_def)
  have st: "startHttpServer e t =
       then_p
         (then_p
            (then_p (t3, Resolves) (processAppMiddlewares e opts))
            (processAddonMiddlewares e opts))
         (\<lambda>t. catch_p (listen e (port opts) (host opts) t)
                 (\<lambda>err t. (t, Throws (SilentError (bind_message opts)))))"
    using s unfolding c_def t3_def opts_def
    by (simp add: startHttpServer_def prims Let_def)
  obtain ms as where f: "fst (processAppMiddlewares e opts t3) =
      t3\<lparr>app := app t3 @ ms, trace := trace t3 @ as\<rparr>"
    using processAppMiddlewares_frame by blast
  have "app (fst (processAppMiddlewares e opts tc)) = app (fst (processAppMiddlewares e opts t3))"
    by (rule processAppMiddlewares_app_cong) (simp_all add: tc_def t3_def c_def)
  then have ms: "drop 1 (app (fst (processAppMiddlewares e opts tc))) = ms"
    by (simp add: f a3)
  have "new_actions tc (fst (processAppMiddlewares e opts tc)) =
      new_actions t3 (fst (processAppMiddlewares e opts t3))"
    by (rule processAppMiddlewares_actions_cong) (simp_all add: tc_def t3_def c_def)
  also have "\<dots> = as" by (rule new_actions_append) (simp add: f)
  finally have as: "new_actions tc (fst (processAppMiddlewares e opts tc)) = as" .
  have mo: "snd (processAppMiddlewares e opts t3) = snd (processAppMiddlewares e (startOptions t) t)"
    by (rule processAppMiddlewares_snd_cong) (simp add: t3_def c_def)
  note ch = chain_shape_of [OF h3 f, of "port opts" "host opts" "bind_message opts"]
  have "startHttpServer e t =
      start_shape e t srv ms as (snd (processAppMiddlewares e (startOptions t) t))"
    unfolding st ch mo
    by (cases "listen_outcome e")
       (simp_all add: start_shape_def bind_outcome_def Let_def t3_def c_def opts_def)
  then show ?thesis
    unfolding ms [symmetric] as [symmetric] tc_def opts_def by blast
qed

lemma startHttpServer_not_reached:
  assumes "snd (setupHttpServer e t) \<noteq> None"
  shows "new_actions t (fst (startHttpServer e t)) = [Express, AppUse Compression]"
proof (cases rule: startHttpServer_cases [of t e])
  case (Throws err)
  show ?thesis by (rule new_actions_append) (simp add: Throws(3))
next
  case (Chain srv ms as)
  define c where "c = t\<lparr>app := [Compression], trace := trace t @ [Express, AppUse Compression]\<rparr>"
  have "snd (setupHttpServer e c) = snd (setupHttpServer e t)"
    by (rule setupHttpServer_snd_cong) (simp add: c_def)
  with assms obtain err where s: "setupHttpServer e c = (fst (setupHttpServer e c), Some err)"
    by (cases "setupHttpServer e c") auto
  from setupHttpServer_cases [of e c] s have "setupHttpServer e c = (c, Some err)" by auto
  then have "startHttpServer e t = (c, Throws err)"
    unfolding c_def by (rule startHttpServer_setup_fails)
  then show ?thesis by (intro new_actions_append) (simp add: c_def)
qed

lemma processAppMiddlewares_app_head:
  "app t = [Compression] \<Longrightarrow>
   Compression # drop 1 (app (fst (processAppMiddlewares e opts t))) =
   app (fst (processAppMiddlewares e opts t))"
proof -
  assume a: "app t = [Compression]"
  obtain ms as where "fst (processAppMiddlewares e opts t) =
      t\<lparr>app := app t @ ms, trace := trace t @ as\<rparr>"
    using processAppMiddlewares_frame by blast
  then show ?thesis by (simp add: a)
qed

lemma bind_outcome_httpServer:
  "bind_outcome e (opts\<lparr>opt_httpServer := x\<rparr>) = bind_outcome e opts"
  by (cases "listen_outcome e") (simp_all add: bind_outcome_def)

lemma pipeline_reached:
  assumes ok: "snd (setupHttpServer e t) = None"
    and mr: "snd (processAppMiddlewares e (startOptions t) t) = Resolves"
  shows "\<exists>srv. startOptions (fst (startHttpServer e t)) = (startOptions t)\<lparr>opt_httpServer := Some srv\<rparr>
     \<and> new_actions t (fst (startHttpServer e t)) =
         [Express, AppUse Compression, CreateServer srv] @
         new_actions (t\<lparr>app := [Compression]\<rparr>)
           (fst (processAppMiddlewares e (startOptions (fst (startHttpServer e t)))
                   (t\<lparr>app := [Compression]\<rparr>))) @
         InitializeAddons #
         hook_calls (startOptions (fst (startHttpServer e t)))
           (app (fst (processAppMiddlewares e (startOptions (fst (startHttpServer e t)))
                        (t\<lparr>app := [Compression]\<rparr>))))
           (addons e) @
         (if series_outcome (addons e) = Resolves
          then Listen (port (startOptions t)) (host (startOptions t)) #
               (if listen_outcome e = Resolves then [Emit ''listening''] else [])
          else [])
     \<and> app (fst (startHttpServer e t)) =
         app (fst (processAppMiddlewares e (startOptions (fst (startHttpServer e t)))
                     (t\<lparr>app := [Compression]\<rparr>))) @
         series_mounts (addons e)
     \<and> snd (startHttpServer e t) =
         (if series_outcome (addons e) = Resolves then bind_outcome e (startOptions t)
          else series_outcome (addons e))"
proof -
  from startHttpServer_reached [OF ok] obtain srv where sh: "startHttpServer e t =
     start_shape e t srv
       (drop 1 (app (fst (processAppMiddlewares e ((startOptions t)\<lparr>opt_httpServer := Some srv\<rparr>)
                       (t\<lparr>app := [Compression]\<rparr>)))))
       (new_actions (t\<lparr>app := [Compression]\<rparr>)
          (fst (processAppMiddlewares e ((startOptions t)\<lparr>opt_httpServer := Some srv\<rparr>)
                  (t\<lparr>app := [Compression]\<rparr>))))
       (snd (processAppMiddlewares e (startOptions t) t))"
    by blast
  define opts where "opts = (startOptions t)\<lparr>opt_httpServer := Some srv\<rparr>"
  define tc where "tc = t\<lparr>app := [Compression]\<rparr>"
  define ms where "ms = drop 1 (app (fst (processAppMiddlewares e opts tc)))"
  define ma where "ma = new_actions tc (fst (processAppMiddlewares e opts tc))"
  note sh' = sh [folded opts_def tc_def, folded ms_def ma_def, unfolded mr]
  have hd: "Compression # ms = app (fst (processAppMiddlewares e opts tc))"
    unfolding ms_def by (rule processAppMiddlewares_app_head) (simp add: tc_def)
  have so: "startOptions (fst (startHttpServer e t)) = opts"
    by (simp add: sh' start_shape_def Let_def opts_def)
  have na: "new_actions t (fst (startHttpServer e t)) =
     [Express, AppUse Compression, CreateServer srv] @ ma @
     InitializeAddons # hook_calls opts (Compression # ms) (addons e) @
       (if series_outcome (addons e) = Resolves
        then Listen (port (startOptions t)) (host (startOptions t)) #
             (if listen_outcome e = Resolves then [Emit ''listening''] else [])
        else [])"
    unfolding sh' opts_def by (simp add: start_shape_actions)
  have ap: "app (fst (startHttpServer e t)) = (Compression # ms) @ series_mounts (addons e)"
    by (simp add: sh' start_shape_def Let_def)
  have ou: "snd (startHttpServer e t) =
         (if series_outcome (addons e) = Resolves then bind_outcome e (startOptions t)
          else series_outcome (addons e))"
    by (simp add: sh' start_shape_def Let_def opts_def bind_outcome_httpServer)
  note na' = na [unfolded hd ma_def]
  note ap' = ap [unfolded hd]
  show ?thesis
    unfolding so
    by (rule exI [of _ srv]) (simp add: na' ap' ou, simp add: opts_def tc_def)
qed

lemma pipeline_reached_iff:
  "(InitializeAddons \<in> set (new_actions t (fst (startHttpServer e t)))) =
   (snd (setupHttpServer e t) = None \<and>
    snd (processAppMiddlewares e (startOptions t) t) = Resolves)"
proof (cases "snd (setupHttpServer e t) = None")
  case False
  then have "new_actions t (fst (startHttpServer e t)) = [Express, AppUse Compression]"
    by (rule startHttpServer_not_reached)
  with False show ?thesis by simp
next
  case True
  from startHttpServer_reached [OF True] obtain srv ms as where
    sh: "startHttpServer e t =
      start_shape e t srv ms as (snd (processAppMiddlewares e (startOptions t) t))"
    and asd: "as = new_actions (t\<lparr>app := [Compression]\<rparr>)
          (fst (processAppMiddlewares e ((startOptions t)\<lparr>opt_httpServer := Some srv\<rparr>)
                  (t\<lparr>app := [Compression]\<rparr>)))"
    by blast
  obtain ms' as' where "fst (processAppMiddlewares e ((startOptions t)\<lparr>opt_httpServer := Some srv\<rparr>)
                  (t\<lparr>app := [Compression]\<rparr>)) =
      (t\<lparr>app := [Compression]\<rparr>)\<lparr>app := app (t\<lparr>app := [Compression]\<rparr>) @ ms',
         trace := trace (t\<lparr>app := [Compression]\<rparr>) @ as'\<rparr>"
    and m: "list_all is_module_action as'"
    using processAppMiddlewares_frame by blast
  then have "as = as'" unfolding asd by (intro new_actions_append) simp
  with m have i: "InitializeAddons \<notin> set as"
    by (auto dest: module_no_hook)
  show ?thesis
    using True i by (simp add: sh start_shape_actions)
qed

lemma pipeline_module_fails:
  assumes ok: "snd (setupHttpServer e t) = None"
    and mr: "snd (processAppMiddlewares e (startOptions t) t) \<noteq> Resolves"
  shows "snd (startHttpServer e t) = settle (snd (processAppMiddlewares e (startOptions t) t))"
proof -
  from startHttpServer_reached [OF ok] obtain srv ms as where
    "startHttpServer e t =
      start_shape e t srv ms as (snd (processAppMiddlewares e (startOptions t) t))"
    by blast
  with mr show ?thesis by (simp add: start_shape_def Let_def)
qed

text \<open>
  C4. In the actions of \<^verbatim>\<open>startHttpServer\<close>, everything the server module phase does
  comes before every call of an addon hook; a hook is called only when that phase was
  fulfilled. The addon phase is entered exactly when the set-up succeeded and the server
  module phase was fulfilled, and then the actions of the start are, in this order: the
  application, the compression and the server; what the server module phase does; the
  initialisation of the addons; the calls of \<open>hook_calls\<close>, that is, the hook of every
  addon that has one, in the order of the collection, each given the application as the
  phases and hooks before it left it and the options, up to the first hook that is not
  fulfilled; and \<^verbatim>\<open>listen\<close> only when every hook was fulfilled. The start ends as the
  series of the hooks ends when a hook is not fulfilled: when the hook of an addon is
  rejected or throws, after the hooks before it were fulfilled, the start is rejected with
  that error, no hook of a later addon is called and \<^verbatim>\<open>listen\<close> is not called. When
  the server module phase is not fulfilled the start ends as that phase does.
\<close>

theorem pipeline_order:
  "(\<exists>xs ys. new_actions t (fst (startHttpServer e t)) = xs @ ys
        \<and> \<not> list_ex is_hook_call xs \<and> \<not> list_ex is_module_action ys)
   \<and> (list_ex is_hook_call (new_actions t (fst (startHttpServer e t))) \<longrightarrow>
        snd (processAppMiddlewares e (startOptions t) t) = Resolves)
   \<and> (InitializeAddons \<notin> set (new_actions t (fst (startHttpServer e t))) \<longrightarrow>
        filter is_hook_call (new_actions t (fst (startHttpServer e t))) = [])
   \<and> (InitializeAddons \<in> set (new_actions t (fst (startHttpServer e t))) \<longrightarrow>
        (\<exists>ap. filter is_hook_call (new_actions t (fst (startHttpServer e t))) =
                hook_calls (startOptions (fst (startHttpServer e t))) ap (addons e)
            \<and> hd ap = Compression \<and> prefix ap (app (fst (startHttpServer e t)))))
   \<and> (InitializeAddons \<in> set (new_actions t (fst (startHttpServer e t)))
        \<and> addons e = as @ a # bs \<and> series_outcome as = Resolves
        \<and> serverMiddleware a = Some (m, out) \<and> settle out = Rejects err \<longrightarrow>
        snd (startHttpServer e t) = Rejects err
        \<and> \<not> list_ex is_listen (new_actions t (fst (startHttpServer e t)))
        \<and> (\<exists>ap. filter is_hook_call (new_actions t (fst (startHttpServer e t))) =
                hook_calls (startOptions (fst (startHttpServer e t))) ap (as @ [a])))
   \<and> (InitializeAddons \<in> set (new_actions t (fst (startHttpServer e t)))) =
       (snd (setupHttpServer e t) = None \<and>
        snd (processAppMiddlewares e (startOptions t) t) = Resolves)
   \<and> (snd (setupHttpServer e t) = None \<and>
        snd (processAppMiddlewares e (startOptions t) t) = Resolves \<longrightarrow>
        (\<exists>srv. startOptions (fst (startHttpServer e t)) =
                  (startOptions t)\<lparr>opt_httpServer := Some srv\<rparr>
          \<and> new_actions t (fst (startHttpServer e t)) =
              [Express, AppUse Compression, CreateServer srv] @
              new_actions (t\<lparr>app := [Compression]\<rparr>)
                (fst (processAppMiddlewares e (startOptions (fst (startHttpServer e t)))
                        (t\<lparr>app := [Compression]\<rparr>))) @
              InitializeAddons #
              hook_calls (startOptions (fst (startHttpServer e t)))
                (app (fst (processAppMiddlewares e (startOptions (fst (startHttpServer e t)))
                             (t\<lparr>app := [Compression]\<rparr>))))
                (addons e) @
              (if series_outcome (addons e) = Resolves
               then Listen (port (startOptions t)) (host (startOptions t)) #
                    (if listen_outcome e = Resolves then [Emit ''listening''] else [])
               else [])
          \<and> app (fst (startHttpServer e t)) =
              app (fst (processAppMiddlewares e (startOptions (fst (startHttpServer e t)))
                          (t\<lparr>app := [Compression]\<rparr>))) @
              series_mounts (addons e)
          \<and> snd (startHttpServer e t) =
              (if series_outcome (addons e) = Resolves then bind_outcome e (startOptions t)
               else series_outcome (addons e))))
   \<and> (snd (setupHttpServer e t) = None \<and>
        snd (processAppMiddlewares e (startOptions t) t) \<noteq> Resolves \<longrightarrow>
        snd (startHttpServer e t) = settle (snd (processAppMiddlewares e (startOptions t) t)))"
proof -
  note h = pipeline_hooks [of t e as a bs m out err]
  have 6: "(InitializeAddons \<in> set (new_actions t (fst (startHttpServer e t)))) =
       (snd (setupHttpServer e t) = None \<and>
        snd (processAppMiddlewares e (startOptions t) t) = Resolves)"
    by (rule pipeline_reached_iff)
  have 7: "snd (setupHttpServer e t) = None \<and>
        snd (processAppMiddlewares e (startOptions t) t) = Resolves \<longrightarrow>
        (\<exists>srv. startOptions (fst (startHttpServer e t)) =
                  (startOptions t)\<lparr>opt_httpServer := Some srv\<rparr>
          \<and> new_actions t (fst (startHttpServer e t)) =
              [Express, AppUse Compression, CreateServer srv] @
              new_actions (t\<lparr>app := [Compression]\<rparr>)
                (fst (processAppMiddlewares e (startOptions (fst (startHttpServer e t)))
                        (t\<lparr>app := [Compression]\<rparr>))) @
              InitializeAddons #
              hook_calls (startOptions (fst (startHttpServer e t)))
                (app (fst (processAppMiddlewares e (startOptions (fst (startHttpServer e t)))
                             (t\<lparr>app := [Compression]\<rparr>))))
                (addons e) @
              (if series_outcome (addons e) = Resolves
               then Listen (port (startOptions t)) (host (startOptions t)) #
                    (if listen_outcome e = Resolves then [Emit ''listening''] else [])
               else [])
          \<and> app (fst (startHttpServer e t)) =
              app (fst (processAppMiddlewares e (startOptions (fst (startHttpServer e t)))
                          (t\<lparr>app := [Compression]\<rparr>))) @
              series_mounts (addons e)
          \<and> snd (startHttpServer e t) =
              (if series_outcome (addons e) = Resolves then bind_outcome e (startOptions t)
               else series_outcome (addons e)))"
    using pipeline_reached [of e t] by blast
  have 8: "snd (setupHttpServer e t) = None \<and>
        snd (processAppMiddlewares e (startOptions t) t) \<noteq> Resolves \<longrightarrow>
        snd (startHttpServer e t) = settle (snd (processAppMiddlewares e (startOptions t) t))"
    using pipeline_module_fails [of e t] by blast
  from h 6 7 8 show ?thesis by (intro conjI) (elim conjE, assumption)+
qed

subsection \<open>Stopping and the restart cycle\<close>

lemma on_socket_close_filter:
  "on_socket_close i t = t\<lparr>sockets := filter (\<lambda>kv. fst kv \<noteq> i) (sockets t)\<rparr>"
proof -
  have "AList.delete i xs = filter (\<lambda>kv. fst kv \<noteq> i) xs" for xs :: "(nat \<times> nat) list"
    by (induction xs) auto
  then show ?thesis by (simp add: on_socket_close_def)
qed

lemma fold_on_socket_close:
  "fold on_socket_close ids t =
     t\<lparr>sockets := filter (\<lambda>kv. fst kv \<notin> set ids) (sockets t)\<rparr>"
proof (induction ids arbitrary: t)
  case Nil
  then show ?case by simp
next
  case (Cons i ids)
  have f: "filter (\<lambda>kv. fst kv \<notin> set ids) (filter (\<lambda>kv. fst kv \<noteq> i) (sockets t)) =
     filter (\<lambda>kv. fst kv \<notin> set (i # ids)) (sockets t)"
    by (auto intro: filter_cong)
  have "fold on_socket_close (i # ids) t = fold on_socket_close ids (on_socket_close i t)"
    by simp
  also have "\<dots> = (on_socket_close i t)\<lparr>sockets :=
      filter (\<lambda>kv. fst kv \<notin> set ids) (sockets (on_socket_close i t))\<rparr>"
    by (rule Cons.IH)
  also have "\<dots> = t\<lparr>sockets := filter (\<lambda>kv. fst kv \<notin> set (i # ids)) (sockets t)\<rparr>"
    unfolding on_socket_close_filter using f by simp
  finally show ?case .
qed

lemma stopHttpServer_None:
  "httpServer t = None \<Longrightarrow> stopHttpServer e t = (t, Resolves)"
  by (simp add: stopHttpServer_def)

lemma stopHttpServer_Some:
  assumes "httpServer t = Some srv"
  shows "stopHttpServer e t =
     (case close_outcome e of
        Throws err \<Rightarrow> (t\<lparr>trace := trace t @ [Close]\<rparr>, Rejects err)
      | Rejects err \<Rightarrow>
          (t\<lparr>trace := trace t @ Close # map (\<lambda>kv. Destroy (fst kv)) (sockets t),
             sockets := filter (\<lambda>kv. fst kv \<notin> set (closed_first e)) (sockets t)\<rparr>,
           Rejects err)
      | Resolves \<Rightarrow>
          (t\<lparr>trace := trace t @ Close # map (\<lambda>kv. Destroy (fst kv)) (sockets t),
             sockets := filter (\<lambda>kv. fst kv \<notin> set (closed_first e)) (sockets t),
             httpServer := None\<rparr>,
           Resolves)
      | Hangs \<Rightarrow>
          (t\<lparr>trace := trace t @ Close # map (\<lambda>kv. Destroy (fst kv)) (sockets t),
             sockets := filter (\<lambda>kv. fst kv \<notin> set (closed_first e)) (sockets t)\<rparr>,
           Hangs))"
  using assms
  by (cases "close_outcome e")
     (simp_all add: stopHttpServer_def Let_def fold_on_socket_close prims)

text \<open>
  C8, as amended. With no server \<^verbatim>\<open>stopHttpServer\<close> is fulfilled at once and changes
  nothing. With a server, when it is fulfilled the callback of \<^verbatim>\<open>close\<close> was called
  without an error, \<^verbatim>\<open>httpServer\<close> is \<^verbatim>\<open>null\<close>, \<^verbatim>\<open>close\<close> and then
  \<^verbatim>\<open>destroy\<close> on every registered socket were called, whatever their number, and the
  registry holds the sockets whose own \<^verbatim>\<open>close\<close> event has not been delivered yet: it
  is empty exactly when the events of all of them came before the callback.
\<close>

theorem stop_resolves:
  "(httpServer t = None \<longrightarrow> stopHttpServer e t = (t, Resolves))
   \<and> (httpServer t \<noteq> None \<and> snd (stopHttpServer e t) = Resolves \<longrightarrow>
        close_outcome e = Resolves
      \<and> httpServer (fst (stopHttpServer e t)) = None
      \<and> new_actions t (fst (stopHttpServer e t)) =
          Close # map (\<lambda>kv. Destroy (fst kv)) (sockets t)
      \<and> sockets (fst (stopHttpServer e t)) =
          filter (\<lambda>kv. fst kv \<notin> set (closed_first e)) (sockets t)
      \<and> (sockets (fst (stopHttpServer e t)) = [] \<longleftrightarrow>
          fst ` set (sockets t) \<subseteq> set (closed_first e)))"
proof (intro conjI impI)
  assume "httpServer t = None"
  then show "stopHttpServer e t = (t, Resolves)" by (rule stopHttpServer_None)
next
  assume a: "httpServer t \<noteq> None \<and> snd (stopHttpServer e t) = Resolves"
  then obtain srv where srv: "httpServer t = Some srv" by auto
  from a have r: "snd (stopHttpServer e t) = Resolves" by simp
  from r show c: "close_outcome e = Resolves"
    unfolding stopHttpServer_Some [OF srv] by (cases "close_outcome e") simp_all
  have eq: "stopHttpServer e t =
     (t\<lparr>trace := trace t @ Close # map (\<lambda>kv. Destroy (fst kv)) (sockets t),
             sockets := filter (\<lambda>kv. fst kv \<notin> set (closed_first e)) (sockets t),
             httpServer := None\<rparr>, Resolves)"
    unfolding stopHttpServer_Some [OF srv] by (simp add: c)
  show "httpServer (fst (stopHttpServer e t)) = None" by (simp add: eq)
  show "new_actions t (fst (stopHttpServer e t)) =
          Close # map (\<lambda>kv. Destroy (fst kv)) (sockets t)"
    by (rule new_actions_append) (simp add: eq)
  show s: "sockets (fst (stopHttpServer e t)) =
          filter (\<lambda>kv. fst kv \<notin> set (closed_first e)) (sockets t)"
    by (simp add: eq)
  show "sockets (fst (stopHttpServer e t)) = [] \<longleftrightarrow>
          fst ` set (sockets t) \<subseteq> set (closed_first e)"
    unfolding s by (auto simp: filter_empty_conv)
qed

lemma stopHttpServer_serverRoot [simp]:
  "serverRoot (fst (stopHttpServer e t)) = serverRoot t"
proof (cases "httpServer t")
  case None
  then show ?thesis by (simp add: stopHttpServer_None)
next
  case (Some srv)
  show ?thesis
    unfolding stopHttpServer_Some [OF Some] by (cases "close_outcome e") simp_all
qed

lemma startHttpServer_serverRoot [simp]:
  "serverRoot (fst (startHttpServer e t)) = serverRoot t"
proof (cases rule: startHttpServer_cases [of t e])
  case (Throws err)
  then show ?thesis by simp
next
  case (Chain srv ms as)
  then show ?thesis by (simp add: start_shape_def Let_def)
qed

lemma invalidate_task_serverRoot [simp]:
  "serverRoot (invalidate_task e t) = serverRoot t"
  by (simp add: invalidate_task_def prims)



lemma restarted_frame:
  "restarted t = t\<lparr>trace := trace t @
      [Emit ''restart'', WriteLine [], WriteLine ''Server restarted.'', WriteLine []]\<rparr>"
  by (simp add: restarted_def prims)

text \<open>The chain of a restart cycle, link by link.\<close>

lemma restart_cycle_eq:
  "restart_cycle e t =
     (case snd (stopHttpServer e t) of
        Resolves \<Rightarrow>
          (case settle (snd (startHttpServer e (invalidate_task e (fst (stopHttpServer e t))))) of
             Resolves \<Rightarrow>
               ((restarted (fst (startHttpServer e (invalidate_task e (fst (stopHttpServer e t))))))
                  \<lparr>serverRestartPromise := None\<rparr>, Resolves)
           | Rejects err \<Rightarrow>
               ((writeError err (fst (startHttpServer e (invalidate_task e (fst (stopHttpServer e t))))))
                  \<lparr>serverRestartPromise := None\<rparr>, Resolves)
           | Throws err \<Rightarrow>
               ((writeError err (fst (startHttpServer e (invalidate_task e (fst (stopHttpServer e t))))))
                  \<lparr>serverRestartPromise := None\<rparr>, Resolves)
           | Hangs \<Rightarrow>
               (fst (startHttpServer e (invalidate_task e (fst (stopHttpServer e t)))), Hangs))
      | Rejects err \<Rightarrow>
          ((writeError err (fst (stopHttpServer e t)))\<lparr>serverRestartPromise := None\<rparr>, Resolves)
      | Throws err \<Rightarrow>
          ((writeError err (fst (stopHttpServer e t)))\<lparr>serverRestartPromise := None\<rparr>, Resolves)
      | Hangs \<Rightarrow> (fst (stopHttpServer e t), Hangs))"
proof -
  obtain t1 o1 where s: "stopHttpServer e t = (t1, o1)" by (cases "stopHttpServer e t")
  obtain t2 o2 where st: "startHttpServer e (invalidate_task e t1) = (t2, o2)"
    by (cases "startHttpServer e (invalidate_task e t1)")
  show ?thesis
    unfolding restart_cycle_def s
    by (cases o1; cases o2) (simp_all add: st)
qed

lemma restart_cycle_outcome:
  "snd (restart_cycle e t) = Resolves \<or> snd (restart_cycle e t) = Hangs"
  unfolding restart_cycle_eq by (simp split: outcome.splits)

lemma restart_cycle_serverRoot [simp]:
  "serverRoot (fst (restart_cycle e t)) = serverRoot t"
  unfolding restart_cycle_eq by (simp add: prims restarted_def split: outcome.splits)


lemma processAppMiddlewares_Hangs:
  "snd (processAppMiddlewares e opts t) = Hangs \<Longrightarrow> value_hangs (project_require e (serverRoot t))"
  by (auto simp: processAppMiddlewares_def split: if_splits sum.splits js_value.splits)

lemma series_outcome_Hangs:
  "series_outcome as = Hangs \<Longrightarrow> list_ex hook_hangs as"
proof (induction as)
  case Nil
  then show ?case by simp
next
  case (Cons a as)
  show ?case
  proof (cases "serverMiddleware a")
    case None
    with Cons show ?thesis by simp
  next
    case (Some mo)
    obtain m out where mo: "mo = (m, out)" by (cases mo)
    from Cons Some mo show ?thesis by (cases out) auto
  qed
qed

lemma stopHttpServer_Hangs:
  "snd (stopHttpServer e t) = Hangs \<Longrightarrow> close_outcome e = Hangs"
proof (cases "httpServer t")
  case None
  assume "snd (stopHttpServer e t) = Hangs"
  with None show ?thesis by (simp add: stopHttpServer_None)
next
  case (Some srv)
  assume "snd (stopHttpServer e t) = Hangs"
  then show ?thesis
    unfolding stopHttpServer_Some [OF Some] by (cases "close_outcome e") simp_all
qed

lemma startHttpServer_Hangs:
  assumes "snd (startHttpServer e t) = Hangs"
  shows "hangs e t"
proof (cases rule: startHttpServer_cases [of t e])
  case (Throws err)
  with assms show ?thesis by simp
next
  case (Chain srv ms as)
  define mout where "mout = snd (processAppMiddlewares e (startOptions t) t)"
  note sh = Chain(2) [folded mout_def]
  show ?thesis
  proof (cases "mout = Resolves")
    case False
    with assms have "mout = Hangs" by (simp add: sh start_shape_def Let_def)
    then have "value_hangs (project_require e (serverRoot t))"
      unfolding mout_def by (rule processAppMiddlewares_Hangs)
    then show ?thesis by (simp add: hangs_def)
  next
    case True
    note m = this
    show ?thesis
    proof (cases "series_outcome (addons e) = Resolves")
      case False
      with assms m have "series_outcome (addons e) = Hangs"
        by (simp add: sh start_shape_def Let_def)
      then have "list_ex hook_hangs (addons e)" by (rule series_outcome_Hangs)
      then show ?thesis by (simp add: hangs_def)
    next
      case True
      with assms m have "bind_outcome e ((startOptions t)\<lparr>opt_httpServer := Some srv\<rparr>) = Hangs"
        by (simp add: sh start_shape_def Let_def)
      then have "listen_outcome e = Hangs"
        by (cases "listen_outcome e") (simp_all add: bind_outcome_def)
      then show ?thesis by (simp add: hangs_def)
    qed
  qed
qed

lemma hangs_serverRoot: "serverRoot t' = serverRoot t \<Longrightarrow> hangs e t' = hangs e t"
  by (simp add: hangs_def)

lemma restart_cycle_Resolves:
  assumes "\<not> hangs e t"
  shows "snd (restart_cycle e t) = Resolves"
proof -
  have "snd (restart_cycle e t) \<noteq> Hangs"
  proof
    assume h: "snd (restart_cycle e t) = Hangs"
    show False
    proof (cases "snd (stopHttpServer e t) = Hangs")
      case True
      then have "close_outcome e = Hangs" by (rule stopHttpServer_Hangs)
      with assms show False by (simp add: hangs_def)
    next
      case False
      with h have "snd (startHttpServer e (invalidate_task e (fst (stopHttpServer e t)))) = Hangs"
        unfolding restart_cycle_eq
        by (cases "snd (stopHttpServer e t)";
            cases "snd (startHttpServer e (invalidate_task e (fst (stopHttpServer e t))))")
           simp_all
      then have "hangs e (invalidate_task e (fst (stopHttpServer e t)))"
        by (rule startHttpServer_Hangs)
      moreover have "hangs e (invalidate_task e (fst (stopHttpServer e t))) = hangs e t"
        by (rule hangs_serverRoot) simp
      ultimately have "hangs e t" by simp
      with assms show False by simp
    qed
  qed
  with restart_cycle_outcome [of e t] show ?thesis by simp
qed

lemma restart_cycle_reports_stop:
  assumes "settle (snd (stopHttpServer e t)) = Rejects err"
  shows "new_actions (fst (stopHttpServer e t)) (fst (restart_cycle e t)) = [WriteError err]"
proof (rule new_actions_append)
  from assms show "trace (fst (restart_cycle e t)) = trace (fst (stopHttpServer e t)) @ [WriteError err]"
    unfolding restart_cycle_eq by (cases "snd (stopHttpServer e t)") (simp_all add: prims)
qed

lemma restart_cycle_reports_start:
  assumes "snd (stopHttpServer e t) = Resolves"
    and "settle (snd (startHttpServer e (invalidate_task e (fst (stopHttpServer e t))))) = Rejects err"
  shows "new_actions (fst (startHttpServer e (invalidate_task e (fst (stopHttpServer e t)))))
           (fst (restart_cycle e t)) = [WriteError err]"
proof (rule new_actions_append)
  from assms show "trace (fst (restart_cycle e t)) =
     trace (fst (startHttpServer e (invalidate_task e (fst (stopHttpServer e t))))) @ [WriteError err]"
    unfolding restart_cycle_eq by (simp add: prims)
qed

lemma returned_restartHttpServer [simp]: "returned (restartHttpServer r w) = returned w"
  by (simp add: restartHttpServer_def split: option.splits)

lemma returned_fold_restart [simp]: "returned (fold restartHttpServer qs w) = returned w"
  by (induction qs arbitrary: w) simp_all

lemma returned_timer_due [simp]: "returned (timer_due now w) = returned w"
  by (simp add: timer_due_def split: option.splits)

lemma returned_changes [simp]: "returned ((serverWatcherDidChange now ^^ n) w) = returned w"
  by (induction n) (simp_all add: serverWatcherDidChange_def scheduleServerRestart_def)

lemma returned_cycle_settles:
  "set (returned (cycle_settles e w)) \<subseteq> set (returned w) \<union> {ro. snd ro = Resolves}"
proof (cases "serverRestartPromise (the_task w)")
  case None
  then show ?thesis by (simp add: cycle_settles_def)
next
  case (Some r)
  from restart_cycle_outcome [of e "the_task w"] show ?thesis
    by (auto simp: cycle_settles_def Some)
qed

lemma returned_step:
  "set (returned (step ev w)) \<subseteq> set (returned w) \<union> {ro. snd ro = Resolves}"
proof (cases ev)
  case (Settled e)
  then show ?thesis using returned_cycle_settles [of e w] by simp
qed simp_all

lemma returned_run:
  "set (returned (run evs w)) \<subseteq> set (returned w) \<union> {ro. snd ro = Resolves}"
proof (induction evs arbitrary: w)
  case Nil
  then show ?case by (simp add: run_def)
next
  case (Cons ev evs)
  have "run (ev # evs) w = run evs (step ev w)" by (simp add: run_def)
  with Cons [of "step ev w"] returned_step [of ev w] show ?case by auto
qed


text \<open>
  C2. The chain of a restart cycle is never rejected: it is fulfilled or it does not
  settle, and it is fulfilled when no collaborator hangs. An error of the stop, and an
  error of the start after a fulfilled stop, is written with \<^verbatim>\<open>writeError\<close> and goes no
  further. Every promise returned to a restart request, whether the request began the
  cycle or was attached to the outstanding one, is fulfilled when it settles. The output
  sink is taken to accept what is written to it.
\<close>

theorem restart_never_rejects:
  "snd (restart_cycle e t) \<noteq> Rejects err \<and> snd (restart_cycle e t) \<noteq> Throws err
   \<and> (\<not> hangs e t \<longrightarrow> snd (restart_cycle e t) = Resolves)
   \<and> (settle (snd (stopHttpServer e t)) = Rejects err \<longrightarrow>
        new_actions (fst (stopHttpServer e t)) (fst (restart_cycle e t)) = [WriteError err])
   \<and> (snd (stopHttpServer e t) = Resolves \<and>
        settle (snd (startHttpServer e (invalidate_task e (fst (stopHttpServer e t))))) = Rejects err \<longrightarrow>
        new_actions (fst (startHttpServer e (invalidate_task e (fst (stopHttpServer e t)))))
           (fst (restart_cycle e t)) = [WriteError err])
   \<and> (returned w = [] \<longrightarrow> (\<forall>ro \<in> set (returned (run evs w)). snd ro = Resolves))"
proof (intro conjI impI)
  from restart_cycle_outcome [of e t]
  show "snd (restart_cycle e t) \<noteq> Rejects err" and "snd (restart_cycle e t) \<noteq> Throws err"
    by auto
next
  assume "\<not> hangs e t"
  then show "snd (restart_cycle e t) = Resolves" by (rule restart_cycle_Resolves)
next
  assume "settle (snd (stopHttpServer e t)) = Rejects err"
  then show "new_actions (fst (stopHttpServer e t)) (fst (restart_cycle e t)) = [WriteError err]"
    by (rule restart_cycle_reports_stop)
next
  assume "snd (stopHttpServer e t) = Resolves \<and>
        settle (snd (startHttpServer e (invalidate_task e (fst (stopHttpServer e t))))) = Rejects err"
  then show "new_actions (fst (startHttpServer e (invalidate_task e (fst (stopHttpServer e t)))))
           (fst (restart_cycle e t)) = [WriteError err]"
    by (simp add: restart_cycle_reports_start)
next
  assume "returned w = []"
  with returned_run [of evs w] show "\<forall>ro \<in> set (returned (run evs w)). snd ro = Resolves"
    by auto
qed

subsection \<open>Serialised restarts\<close>













lemma outstanding_timer [simp]: "outstanding (w\<lparr>timer := x\<rparr>) = outstanding w"
  by (simp add: outstanding_def)

lemma queue_inv_timer [simp]: "queue_inv n0 done (w\<lparr>timer := x\<rparr>) = queue_inv n0 done w"
  by (simp add: queue_inv_def)












lemma run_Cons: "run (ev # evs) w = run evs (step ev w)"
  by (simp add: run_def)

lemma run_append: "run (evs @ evs') w = run evs' (run evs w)"
  by (simp add: run_def)


lemma step_serverRoot [simp]: "serverRoot (the_task (step ev w)) = serverRoot (the_task w)"
proof -
  have r: "serverRoot (the_task (restartHttpServer q v)) = serverRoot (the_task v)" for q v
    by (simp add: restartHttpServer_def split: option.splits)
  have f: "serverRoot (the_task (fold restartHttpServer qs v)) = serverRoot (the_task v)" for qs v
    by (induction qs arbitrary: v) (simp_all add: r)
  have t: "serverRoot (the_task (timer_due now v)) = serverRoot (the_task v)" for now v
    by (simp add: timer_due_def r split: option.splits)
  have c: "serverRoot (the_task ((serverWatcherDidChange now ^^ n) v)) = serverRoot (the_task v)"
    for now n v
    by (induction n) (simp_all add: serverWatcherDidChange_def scheduleServerRestart_def)
  have s: "serverRoot (the_task (cycle_settles e v)) = serverRoot (the_task v)" for e v
    by (simp add: cycle_settles_def f split: option.splits outcome.splits)
  show ?thesis by (cases ev) (simp_all add: r t c s)
qed

lemma run_serverRoot [simp]: "serverRoot (the_task (run evs w)) = serverRoot (the_task w)"
  by (induction evs arbitrary: w) (simp_all add: run_Cons, simp add: run_def)



lemma stopHttpServer_cache [simp]:
  "require_cache (fst (stopHttpServer e t)) = require_cache t"
proof (cases "httpServer t")
  case None
  then show ?thesis by (simp add: stopHttpServer_None)
next
  case (Some srv)
  show ?thesis
    unfolding stopHttpServer_Some [OF Some] by (cases "close_outcome e") simp_all
qed

lemma startHttpServer_cache [simp]:
  "require_cache (fst (startHttpServer e t)) = require_cache t"
proof (cases rule: startHttpServer_cases [of t e])
  case (Throws err)
  then show ?thesis by simp
next
  case (Chain srv ms as)
  then show ?thesis by (simp add: start_shape_def Let_def)
qed








lemma start_app:
  "\<exists>rest. app (fst (start e opts t)) = Compression # rest"
proof -
  obtain rest where "app (fst (startHttpServer e (watch (t\<lparr>startOptions := opts\<rparr>)))) = Compression # rest"
    using startHttpServer_app_trace by blast
  then show ?thesis by (simp add: start_fst prims)
qed

lemma restart_cycle_app:
  assumes "snd (stopHttpServer e t) = Resolves"
  shows "\<exists>rest. app (fst (restart_cycle e t)) = Compression # rest"
proof -
  obtain rest where "app (fst (startHttpServer e (invalidate_task e (fst (stopHttpServer e t))))) = Compression # rest"
    using startHttpServer_app_trace by blast
  with assms show ?thesis
    unfolding restart_cycle_eq
    by (cases "snd (startHttpServer e (invalidate_task e (fst (stopHttpServer e t))))")
       (simp_all add: prims restarted_def)
qed

text \<open>
  C10. \<^verbatim>\<open>startHttpServer\<close> creates the application and mounts the compression before
  anything else, whatever the environment: the stack of the application it leaves begins
  with the compression, and so it does after \<^verbatim>\<open>start\<close> and after a restart cycle
  whose stop was fulfilled.
\<close>

theorem compression_first:
  "(\<exists>rest more. app (fst (startHttpServer e t)) = Compression # rest
       \<and> new_actions t (fst (startHttpServer e t)) = Express # AppUse Compression # more)
   \<and> (\<exists>rest. app (fst (start e opts t)) = Compression # rest)
   \<and> (snd (stopHttpServer e t) = Resolves \<longrightarrow>
        (\<exists>rest. app (fst (restart_cycle e t)) = Compression # rest))"
proof (intro conjI impI)
  obtain rest more where "app (fst (startHttpServer e t)) = Compression # rest"
    and "trace (fst (startHttpServer e t)) = trace t @ Express # AppUse Compression # more"
    using startHttpServer_app_trace by blast
  then have "app (fst (startHttpServer e t)) = Compression # rest
       \<and> new_actions t (fst (startHttpServer e t)) = Express # AppUse Compression # more"
    by (simp add: new_actions_append)
  then show "\<exists>rest more. app (fst (startHttpServer e t)) = Compression # rest
       \<and> new_actions t (fst (startHttpServer e t)) = Express # AppUse Compression # more"
    by blast
next
  show "\<exists>rest. app (fst (start e opts t)) = Compression # rest" by (rule start_app)
next
  assume "snd (stopHttpServer e t) = Resolves"
  then show "\<exists>rest. app (fst (restart_cycle e t)) = Compression # rest"
    by (rule restart_cycle_app)
qed

subsection \<open>The debounced trigger\<close>

lemma restart_delay_default:
  "serverRestartDelayTime t = None \<Longrightarrow> restart_delay t = 100"
  by (simp add: restart_delay_def)

lemma serverWatcherDidChange_eq:
  "serverWatcherDidChange now w = w\<lparr>timer := Some (now + restart_delay (the_task w))\<rparr>"
  by (simp add: serverWatcherDidChange_def scheduleServerRestart_def)

lemma changes_once:
  "(serverWatcherDidChange now ^^ Suc n) w =
     w\<lparr>timer := Some (now + restart_delay (the_task w))\<rparr>"
proof (induction n)
  case 0
  show ?case by (simp add: serverWatcherDidChange_eq)
next
  case (Suc n)
  have "(serverWatcherDidChange now ^^ Suc (Suc n)) w =
      serverWatcherDidChange now ((serverWatcherDidChange now ^^ Suc n) w)"
    by simp
  also have "\<dots> = serverWatcherDidChange now (w\<lparr>timer := Some (now + restart_delay (the_task w))\<rparr>)"
    by (simp only: Suc.IH)
  also have "\<dots> = w\<lparr>timer := Some (now + restart_delay (the_task w))\<rparr>"
    by (simp add: serverWatcherDidChange_eq)
  finally show ?case .
qed

lemma notify_pending:
  assumes "WatcherOn k \<in> set (trace (the_task w))"
    and "timer w = None \<or> (\<exists>d. timer w = Some d \<and> now < d)"
  shows "step (Notify k now) w = w\<lparr>timer := Some (now + restart_delay (the_task w))\<rparr>"
proof -
  from assms(2) have d: "timer_due now w = w"
    by (auto simp: timer_due_def)
  from assms(1) have "count_list (trace (the_task w)) (WatcherOn k) \<noteq> 0"
    by (simp add: count_list_0_iff)
  then obtain n where n: "count_list (trace (the_task w)) (WatcherOn k) = Suc n"
    by (cases "count_list (trace (the_task w)) (WatcherOn k)") simp_all
  show ?thesis
    unfolding step.simps d n by (rule changes_once)
qed

lemma run_single: "run [ev] w = step ev w"
  by (simp add: run_def)

lemma burst_run:
  assumes "ns \<noteq> []"
    and "\<forall>k \<in> fst ` set ns. WatcherOn k \<in> set (trace (the_task w))"
    and "burst (restart_delay (the_task w)) (map snd ns)"
    and "timer w = None \<or> (\<exists>d. timer w = Some d \<and> snd (hd ns) < d)"
  shows "run (map (\<lambda>n. Notify (fst n) (snd n)) ns) w =
     w\<lparr>timer := Some (snd (last ns) + restart_delay (the_task w))\<rparr>"
  using assms
proof (induction ns arbitrary: w)
  case Nil
  then show ?case by simp
next
  case (Cons n ns)
  have s: "step (Notify (fst n) (snd n)) w = w\<lparr>timer := Some (snd n + restart_delay (the_task w))\<rparr>"
    using Cons.prems(2,4) by (intro notify_pending) simp_all
  show ?case
  proof (cases ns)
    case Nil
    show ?thesis unfolding Nil list.map run_single s by simp
  next
    case (Cons n' ns')
    define w' where "w' = w\<lparr>timer := Some (snd n + restart_delay (the_task w))\<rparr>"
    have tw: "the_task w' = the_task w" by (simp add: w'_def)
    have "run (map (\<lambda>n. Notify (fst n) (snd n)) ns) w' =
       w'\<lparr>timer := Some (snd (last ns) + restart_delay (the_task w'))\<rparr>"
    proof (rule Cons.IH)
      show "ns \<noteq> []" by (simp add: Cons)
      show "\<forall>k \<in> fst ` set ns. WatcherOn k \<in> set (trace (the_task w'))"
        using Cons.prems(2) by (simp add: tw)
      show "burst (restart_delay (the_task w')) (map snd ns)"
        using Cons.prems(3) by (simp add: tw Cons)
      show "timer w' = None \<or> (\<exists>d. timer w' = Some d \<and> snd (hd ns) < d)"
        using Cons.prems(3) by (simp add: w'_def Cons)
    qed
    then have "run (map (\<lambda>n. Notify (fst n) (snd n)) ns) w' =
       w\<lparr>timer := Some (snd (last ns) + restart_delay (the_task w))\<rparr>"
      by (simp add: tw) (simp add: w'_def)
    moreover have "last (n # ns) = last ns" by (simp add: Cons)
    ultimately show ?thesis
      unfolding list.map run_Cons s w'_def [symmetric] by simp
  qed
qed

text \<open>
  C3. With no call of the debounced function pending, a burst of notifications of the
  watcher, each less than the delay after the one before and each of a kind that
  \<^verbatim>\<open>start\<close> registered a handler for, only moves the pending call: nothing begins
  during the burst. Once the delay has passed after the last notification,
  \<^verbatim>\<open>restartHttpServer\<close> has been called exactly once, which begins one cycle when none
  is outstanding. The delay is 100 when none is configured.
\<close>

theorem debounce_one_restart:
  assumes "timer w = None"
    and "ns \<noteq> []"
    and "\<forall>k \<in> fst ` set ns. WatcherOn k \<in> set (trace (the_task w))"
    and "burst (restart_delay (the_task w)) (map snd ns)"
    and "snd (last ns) + restart_delay (the_task w) \<le> T"
  shows "run (map (\<lambda>n. Notify (fst n) (snd n)) ns) w =
           w\<lparr>timer := Some (snd (last ns) + restart_delay (the_task w))\<rparr>
     \<and> run (map (\<lambda>n. Notify (fst n) (snd n)) ns @ [Time T]) w =
           restartHttpServer (next_request w)
             (w\<lparr>timer := None, next_request := Suc (next_request w)\<rparr>)
     \<and> (serverRestartPromise (the_task w) = None \<longrightarrow>
           marks (run (map (\<lambda>n. Notify (fst n) (snd n)) ns @ [Time T]) w) =
             marks w @ [CycleBegin (next_request w)])
     \<and> (serverRestartDelayTime (the_task w) = None \<longrightarrow> restart_delay (the_task w) = 100)"
proof -
  have b: "run (map (\<lambda>n. Notify (fst n) (snd n)) ns) w =
           w\<lparr>timer := Some (snd (last ns) + restart_delay (the_task w))\<rparr>"
    using assms(2,3,4) by (rule burst_run) (simp add: assms(1))
  have t: "run (map (\<lambda>n. Notify (fst n) (snd n)) ns @ [Time T]) w =
           restartHttpServer (next_request w)
             (w\<lparr>timer := None, next_request := Suc (next_request w)\<rparr>)"
    using assms(5) unfolding run_append b run_single step.simps by (simp add: timer_due_def)
  have m: "serverRestartPromise (the_task w) = None \<longrightarrow>
           marks (run (map (\<lambda>n. Notify (fst n) (snd n)) ns @ [Time T]) w) =
             marks w @ [CycleBegin (next_request w)]"
    unfolding t by (simp add: restartHttpServer_def)
  from b t m show ?thesis by (simp add: restart_delay_default)
qed

subsection \<open>Cache invalidation\<close>

lemma indexOf_lower: "- 1 \<le> indexOf k s"
  by (induction k) (auto simp: Let_def)

lemma indexOf_zero_iff: "indexOf k s = 0 \<longleftrightarrow> prefix s k"
proof (cases k)
  case Nil
  then show ?thesis by auto
next
  case (Cons c cs)
  have "- 1 \<le> indexOf cs s" by (rule indexOf_lower)
  with Cons show ?thesis by (auto simp: Let_def)
qed

lemma invalidate_loop_filter:
  "invalidate_loop a ks cache =
     filter (\<lambda>kv. \<not> (fst kv \<in> set ks \<and> prefix a (fst kv))) cache"
proof (induction ks arbitrary: cache)
  case Nil
  then show ?case by simp
next
  case (Cons k ks)
  show ?case
    by (auto simp: Cons.IH indexOf_zero_iff delete_key_def intro!: filter_cong)
qed

lemma invalidateCache_filter:
  "invalidateCache rs sep root cache =
     filter (\<lambda>kv. \<not> prefix (absoluteServerRoot rs sep root) (fst kv)) cache"
  unfolding invalidateCache_def invalidate_loop_filter object_keys_def
  by (rule filter_cong) auto

lemma sibling_not_prefix:
  assumes "rs root \<noteq> []" "last (rs root) \<noteq> sep" "hd rest \<noteq> sep"
  shows "\<not> prefix (absoluteServerRoot rs sep root) (rs root @ rest)"
proof
  assume "prefix (absoluteServerRoot rs sep root) (rs root @ rest)"
  with assms(1,2) have "prefix (rs root @ [sep]) (rs root @ rest)"
    by (simp add: absoluteServerRoot_def)
  then have "prefix [sep] rest" by simp
  with assms(3) show False by (cases rest) auto
qed

text \<open>
  C7. \<^verbatim>\<open>invalidateCache\<close> keeps exactly the entries whose key does not begin with the
  resolved server root made to end in the separator, and removes the others; the
  normalised root always ends in the separator; an entry under a sibling directory, whose
  name continues the root's name with a character other than the separator, is kept; and
  the cache is unchanged when no key begins with the normalised root.
\<close>

theorem invalidateCache_exact:
  "invalidateCache rs sep root cache =
     filter (\<lambda>kv. \<not> prefix (absoluteServerRoot rs sep root) (fst kv)) cache
   \<and> (\<exists>b. absoluteServerRoot rs sep root = b @ [sep]
          \<and> (b = rs root \<or> b @ [sep] = rs root))
   \<and> (rs root \<noteq> [] \<and> last (rs root) \<noteq> sep \<and> hd rest \<noteq> sep
        \<and> (rs root @ rest, m) \<in> set cache
      \<longrightarrow> (rs root @ rest, m) \<in> set (invalidateCache rs sep root cache))
   \<and> ((\<forall>kv \<in> set cache. \<not> prefix (absoluteServerRoot rs sep root) (fst kv))
      \<longrightarrow> invalidateCache rs sep root cache = cache)"
proof (intro conjI impI)
  show "invalidateCache rs sep root cache =
     filter (\<lambda>kv. \<not> prefix (absoluteServerRoot rs sep root) (fst kv)) cache"
    by (rule invalidateCache_filter)
next
  show "\<exists>b. absoluteServerRoot rs sep root = b @ [sep]
          \<and> (b = rs root \<or> b @ [sep] = rs root)"
  proof (cases "rs root = [] \<or> last (rs root) \<noteq> sep")
    case True
    then show ?thesis by (auto simp: absoluteServerRoot_def)
  next
    case False
    then have "rs root = butlast (rs root) @ [sep]"
      by (metis append_butlast_last_id)
    with False show ?thesis by (auto simp: absoluteServerRoot_def Let_def)
  qed
next
  assume a: "rs root \<noteq> [] \<and> last (rs root) \<noteq> sep \<and> hd rest \<noteq> sep
        \<and> (rs root @ rest, m) \<in> set cache"
  then have "\<not> prefix (absoluteServerRoot rs sep root) (rs root @ rest)"
    by (simp add: sibling_not_prefix)
  with a show "(rs root @ rest, m) \<in> set (invalidateCache rs sep root cache)"
    by (simp add: invalidateCache_filter)
next
  assume "\<forall>kv \<in> set cache. \<not> prefix (absoluteServerRoot rs sep root) (fst kv)"
  then show "invalidateCache rs sep root cache = cache"
    by (simp add: invalidateCache_filter)
qed

theorem invalidateCache_exact_witness:
  "invalidateCache (\<lambda>p. p) (CHR ''/'') ''/a/server''
     [(''/a/server/index.js'', 1::nat), (''/a/server-old/index.js'', 2), (''/a/lib/x.js'', 3)]
   = [(''/a/server-old/index.js'', 2), (''/a/lib/x.js'', 3)]
   \<and> (''/a/server'' @ ''-old/index.js'', 2::nat) \<in> set (invalidateCache (\<lambda>p. p) (CHR ''/'') ''/a/server''
     [(''/a/server/index.js'', 1::nat), (''/a/server-old/index.js'', 2), (''/a/lib/x.js'', 3)])
   \<and> invalidateCache (\<lambda>p. p) (CHR ''/'') ''/a/server'' [(''/a/lib/x.js'', 3::nat)]
       = [(''/a/lib/x.js'', 3)]"
proof -
  have 1: "invalidateCache (\<lambda>p. p) (CHR ''/'') ''/a/server''
     [(''/a/server/index.js'', 1::nat), (''/a/server-old/index.js'', 2), (''/a/lib/x.js'', 3)]
   = [(''/a/server-old/index.js'', 2), (''/a/lib/x.js'', 3)]"
    using invalidateCache_exact [of "\<lambda>p. p" "CHR ''/''" "''/a/server''"
      "[(''/a/server/index.js'', 1::nat), (''/a/server-old/index.js'', 2), (''/a/lib/x.js'', 3)]"
      "''-old/index.js''" 2]
    by (simp add: absoluteServerRoot_def)
  have 2: "invalidateCache (\<lambda>p. p) (CHR ''/'') ''/a/server'' [(''/a/lib/x.js'', 3::nat)]
       = [(''/a/lib/x.js'', 3)]"
    using invalidateCache_exact [of "\<lambda>p. p" "CHR ''/''" "''/a/server''"
      "[(''/a/lib/x.js'', 3::nat)]" "''x''" 0]
    by (simp add: absoluteServerRoot_def)
  from 1 2 show ?thesis by simp
qed

subsection \<open>The theorems at the example inputs\<close>

lemmas run_defs =
  start_def watch_def startHttpServer_def setupHttpServer_def createHttpsServer_def
  processAppMiddlewares_def processAddonMiddlewares_def addon_iterator_def listen_def
  stopHttpServer_def restart_cycle_def invalidate_task_def restarted_def
  on_socket_close_def new_actions_def log_def app_use_def emit_def writeLine_def
  writeError_def Let_def

lemmas ex_defs = ex_options_def ex_task_def ex_env_def ex_world_def

text \<open>
  Each theorem with a hypothesis is applied to an input that satisfies it: the example
  task, options and environment, changed where the theorem calls for it.
\<close>

theorem start_tls_missing_witness:
  "ssl (ex_options\<lparr>ssl := True\<rparr>)
   \<and> \<not> existsSync ex_env (sslKey (ex_options\<lparr>ssl := True\<rparr>))
   \<and> snd (start ex_env (ex_options\<lparr>ssl := True\<rparr>) ex_task) =
       Throws (TypeError (sslKey_message ''ssl/server.key''))
   \<and> new_actions ex_task (fst (start ex_env (ex_options\<lparr>ssl := True\<rparr>) ex_task)) =
       [WatcherOn Change, WatcherOn Add, WatcherOn Delete, Express, AppUse Compression]"
proof -
  have h1: "ssl (ex_options\<lparr>ssl := True\<rparr>)" by (simp add: ex_defs)
  have h2: "\<not> existsSync ex_env (sslKey (ex_options\<lparr>ssl := True\<rparr>))
     \<or> \<not> existsSync ex_env (sslCert (ex_options\<lparr>ssl := True\<rparr>))"
    by (simp add: ex_defs)
  from start_tls_missing [OF h1 h2, of ex_task] show ?thesis
    by (simp add: ex_defs)
qed

theorem start_bind_failure_witness:
  "list_ex is_listen (new_actions ex_task
      (fst (start (ex_env\<lparr>listen_outcome := Rejects (Error ''EADDRINUSE'')\<rparr>) ex_options ex_task)))
   \<and> snd (start (ex_env\<lparr>listen_outcome := Rejects (Error ''EADDRINUSE'')\<rparr>) ex_options ex_task) =
       Rejects (SilentError (bind_message ex_options))
   \<and> filter is_listen (new_actions ex_task
        (fst (start (ex_env\<lparr>listen_outcome := Rejects (Error ''EADDRINUSE'')\<rparr>) ex_options ex_task))) =
       [Listen 4200 None]
   \<and> sockets (fst (start (ex_env\<lparr>listen_outcome := Rejects (Error ''EADDRINUSE'')\<rparr>) ex_options ex_task)) = []"
proof -
  define e where "e = ex_env\<lparr>listen_outcome := Rejects (Error ''EADDRINUSE'')\<rparr>"
  have h1: "list_ex is_listen (new_actions ex_task (fst (start e ex_options ex_task)))"
    by (simp add: e_def ex_defs run_defs)
  have h2: "listen_outcome e = Rejects (Error ''EADDRINUSE'') \<or> listen_outcome e = Throws (Error ''EADDRINUSE'')"
    by (simp add: e_def)
  from start_bind_failure [OF h1 h2] h1 show ?thesis
    unfolding e_def by (simp add: ex_options_def)
qed

text \<open>
  After a failed binding the task is not back in the state without a server: the server
  of the attempt is still stored, and \<^verbatim>\<open>stopHttpServer\<close> called next does not resolve
  at once but calls \<^verbatim>\<open>close\<close> on it.
\<close>

theorem start_bind_failure_counterexample:
  "httpServer ex_task = None
   \<and> snd (start (ex_env\<lparr>listen_outcome := Rejects (Error ''EADDRINUSE'')\<rparr>) ex_options ex_task) =
       Rejects (SilentError (bind_message ex_options))
   \<and> httpServer (fst (start (ex_env\<lparr>listen_outcome := Rejects (Error ''EADDRINUSE'')\<rparr>) ex_options ex_task)) =
       Some HttpServer
   \<and> new_actions
        (fst (start (ex_env\<lparr>listen_outcome := Rejects (Error ''EADDRINUSE'')\<rparr>) ex_options ex_task))
        (fst (stopHttpServer ex_env
           (fst (start (ex_env\<lparr>listen_outcome := Rejects (Error ''EADDRINUSE'')\<rparr>) ex_options ex_task)))) =
       [Close]"
  by (simp add: ex_defs run_defs bind_message_def)


text \<open>
  With two sockets open and the callback of \<^verbatim>\<open>close\<close> called before their
  \<^verbatim>\<open>close\<close> events, \<^verbatim>\<open>stopHttpServer\<close> is fulfilled while both are still in the
  registry.
\<close>

theorem stop_registry_counterexample:
  "snd (stopHttpServer ex_env
          (ex_task\<lparr>httpServer := Some HttpServer, sockets := [(0, 7), (1, 8)], nextSocketId := 2\<rparr>)) =
     Resolves
   \<and> sockets (fst (stopHttpServer ex_env
          (ex_task\<lparr>httpServer := Some HttpServer, sockets := [(0, 7), (1, 8)], nextSocketId := 2\<rparr>))) =
     [(0, 7), (1, 8)]"
  by (simp add: ex_defs run_defs)

theorem stop_resolves_witness:
  "stopHttpServer ex_env ex_task = (ex_task, Resolves)
   \<and> snd (stopHttpServer (ex_env\<lparr>closed_first := [1, 0]\<rparr>)
          (ex_task\<lparr>httpServer := Some HttpServer, sockets := [(0, 7), (1, 8)], nextSocketId := 2\<rparr>)) =
     Resolves
   \<and> httpServer (fst (stopHttpServer (ex_env\<lparr>closed_first := [1, 0]\<rparr>)
          (ex_task\<lparr>httpServer := Some HttpServer, sockets := [(0, 7), (1, 8)], nextSocketId := 2\<rparr>))) =
     None
   \<and> sockets (fst (stopHttpServer (ex_env\<lparr>closed_first := [1, 0]\<rparr>)
          (ex_task\<lparr>httpServer := Some HttpServer, sockets := [(0, 7), (1, 8)], nextSocketId := 2\<rparr>))) =
     []
   \<and> new_actions
        (ex_task\<lparr>httpServer := Some HttpServer, sockets := [(0, 7), (1, 8)], nextSocketId := 2\<rparr>)
        (fst (stopHttpServer (ex_env\<lparr>closed_first := [1, 0]\<rparr>)
          (ex_task\<lparr>httpServer := Some HttpServer, sockets := [(0, 7), (1, 8)], nextSocketId := 2\<rparr>))) =
     [Close, Destroy 0, Destroy 1]"
proof -
  define e where "e = ex_env\<lparr>closed_first := [1, 0]\<rparr>"
  define t where "t = ex_task\<lparr>httpServer := Some HttpServer, sockets := [(0, 7), (1, 8)], nextSocketId := 2\<rparr>"
  have n: "httpServer ex_task = None" by (simp add: ex_defs)
  have h: "httpServer t \<noteq> None \<and> snd (stopHttpServer e t) = Resolves"
    by (simp add: e_def t_def ex_defs run_defs)
  have c: "fst ` set (sockets t) \<subseteq> set (closed_first e)"
    by (simp add: e_def t_def ex_defs)
  from stop_resolves [of ex_task ex_env] n
  have 1: "stopHttpServer ex_env ex_task = (ex_task, Resolves)" by blast
  from stop_resolves [of t e] h c
  have 2: "httpServer (fst (stopHttpServer e t)) = None"
    and 3: "sockets (fst (stopHttpServer e t)) = []"
    and 4: "new_actions t (fst (stopHttpServer e t)) =
          Close # map (\<lambda>kv. Destroy (fst kv)) (sockets t)"
    by blast+
  from 4 have 5: "new_actions t (fst (stopHttpServer e t)) = [Close, Destroy 0, Destroy 1]"
    by (simp add: t_def)
  from 1 h 2 3 5 show ?thesis unfolding e_def t_def by simp
qed

theorem processAppMiddlewares_shapes_witness:
  "processAppMiddlewares
      (ex_env\<lparr>project_has := (\<lambda>p. True), project_require := (\<lambda>p. Inr JSOther)\<rparr>) ex_options ex_task =
     (ex_task, Throws (TypeError server_entry_message))
   \<and> snd (startHttpServer
      (ex_env\<lparr>project_has := (\<lambda>p. True), project_require := (\<lambda>p. Inr JSOther)\<rparr>) ex_task) =
     Rejects (TypeError server_entry_message)
   \<and> app (fst (processAppMiddlewares
      (ex_env\<lparr>project_has := (\<lambda>p. True),
         project_require := (\<lambda>p. Inr (JSFunction ''proxy'' 3 [] Resolves))\<rparr>) ex_options
      (ex_task\<lparr>app := [Compression]\<rparr>))) = [Compression, Handler ''proxy'']
   \<and> new_actions (ex_task\<lparr>app := [Compression]\<rparr>)
       (fst (processAppMiddlewares
          (ex_env\<lparr>project_has := (\<lambda>p. True),
             project_require := (\<lambda>p. Inr (JSFunction ''mock'' 2 [Handler ''api''] Resolves))\<rparr>)
          ex_options (ex_task\<lparr>app := [Compression]\<rparr>))) =
       [ServerCall ''mock'' [Compression] ex_options]"
proof -
  define e1 where "e1 = ex_env\<lparr>project_has := (\<lambda>p. True), project_require := (\<lambda>p. Inr JSOther)\<rparr>"
  define e2 where "e2 = ex_env\<lparr>project_has := (\<lambda>p. True),
         project_require := (\<lambda>p. Inr (JSFunction ''proxy'' 3 [] Resolves))\<rparr>"
  define e3 where "e3 = ex_env\<lparr>project_has := (\<lambda>p. True),
         project_require := (\<lambda>p. Inr (JSFunction ''mock'' 2 [Handler ''api''] Resolves))\<rparr>"
  define t where "t = ex_task\<lparr>app := [Compression]\<rparr>"
  have h1: "project_has e1 (serverRoot ex_task)" by (simp add: e1_def ex_defs)
  have r1: "project_require e1 (serverRoot ex_task) = Inr JSOther" by (simp add: e1_def ex_defs)
  have s1: "\<not> ssl (startOptions ex_task)" by (simp add: ex_defs)
  from processAppMiddlewares_shapes [OF h1, where opts = ex_options] r1 s1
  have 1: "processAppMiddlewares e1 ex_options ex_task = (ex_task, Throws (TypeError server_entry_message))"
    and 2: "snd (startHttpServer e1 ex_task) = Rejects (TypeError server_entry_message)"
    by blast+
  have h2: "project_has e2 (serverRoot t)" by (simp add: e2_def t_def ex_defs)
  have r2: "project_require e2 (serverRoot t) = Inr (JSFunction ''proxy'' 3 [] Resolves)"
    by (simp add: e2_def t_def ex_defs)
  from processAppMiddlewares_shapes [OF h2, where opts = ex_options and name = "''proxy''"
      and mounts = "[]" and out = Resolves] r2
  have "app (fst (processAppMiddlewares e2 ex_options t)) = app t @ [Handler ''proxy'']"
    by blast
  then have 3: "app (fst (processAppMiddlewares e2 ex_options t)) = [Compression, Handler ''proxy'']"
    by (simp add: t_def)
  have h3: "project_has e3 (serverRoot t)" by (simp add: e3_def t_def ex_defs)
  have r3: "project_require e3 (serverRoot t) = Inr (JSFunction ''mock'' 2 [Handler ''api''] Resolves) \<and> (2::nat) \<noteq> 3"
    by (simp add: e3_def t_def ex_defs)
  from processAppMiddlewares_shapes [OF h3, where opts = ex_options and name = "''mock''"
      and mounts = "[Handler ''api'']" and out = Resolves and len = 2] r3
  have "new_actions t (fst (processAppMiddlewares e3 ex_options t)) = [ServerCall ''mock'' (app t) ex_options]"
    by blast
  then have 4: "new_actions t (fst (processAppMiddlewares e3 ex_options t)) =
      [ServerCall ''mock'' [Compression] ex_options]"
    by (simp add: t_def)
  from 1 2 3 4 show ?thesis unfolding e1_def e2_def e3_def t_def by simp
qed


theorem compression_first_witness:
  "snd (stopHttpServer ex_env (ex_task\<lparr>httpServer := Some HttpServer, app := [Handler ''old'']\<rparr>)) = Resolves
   \<and> hd (app (fst (restart_cycle ex_env
          (ex_task\<lparr>httpServer := Some HttpServer, app := [Handler ''old'']\<rparr>)))) = Compression
   \<and> hd (app (fst (start ex_env ex_options ex_task))) = Compression
   \<and> take 2 (new_actions ex_task (fst (startHttpServer ex_env ex_task))) =
       [Express, AppUse Compression]"
proof -
  define t where "t = ex_task\<lparr>httpServer := Some HttpServer, app := [Handler ''old'']\<rparr>"
  have h: "snd (stopHttpServer ex_env t) = Resolves"
    by (simp add: t_def ex_defs run_defs)
  from compression_first [of ex_env t ex_options] h
  obtain rest where "app (fst (restart_cycle ex_env t)) = Compression # rest" by blast
  then have 1: "hd (app (fst (restart_cycle ex_env t))) = Compression" by simp
  from compression_first [of ex_env ex_task ex_options]
  obtain rest' where "app (fst (start ex_env ex_options ex_task)) = Compression # rest'" by blast
  then have 2: "hd (app (fst (start ex_env ex_options ex_task))) = Compression" by simp
  from compression_first [of ex_env ex_task ex_options]
  obtain more where "new_actions ex_task (fst (startHttpServer ex_env ex_task)) =
      Express # AppUse Compression # more" by blast
  then have 3: "take 2 (new_actions ex_task (fst (startHttpServer ex_env ex_task))) =
       [Express, AppUse Compression]" by simp
  from h 1 2 3 show ?thesis unfolding t_def by simp
qed

theorem pipeline_order_witness:
  "snd (setupHttpServer
      (ex_env\<lparr>project_has := (\<lambda>p. True),
         project_require := (\<lambda>p. Inr (JSFunction ''mock'' 2 [Handler ''api''] Resolves)),
         addons :=
         [\<lparr>addon_name = ''a1'', serverMiddleware = Some ([Handler ''h1''], Resolves)\<rparr>,
          \<lparr>addon_name = ''a2'', serverMiddleware = None\<rparr>,
          \<lparr>addon_name = ''a3'', serverMiddleware = Some ([], Rejects (Error ''boom''))\<rparr>,
          \<lparr>addon_name = ''a4'', serverMiddleware = Some ([Handler ''h4''], Resolves)\<rparr>]\<rparr>)
      ex_task) = None
   \<and> snd (processAppMiddlewares
      (ex_env\<lparr>project_has := (\<lambda>p. True),
         project_require := (\<lambda>p. Inr (JSFunction ''mock'' 2 [Handler ''api''] Resolves)),
         addons :=
         [\<lparr>addon_name = ''a1'', serverMiddleware = Some ([Handler ''h1''], Resolves)\<rparr>,
          \<lparr>addon_name = ''a2'', serverMiddleware = None\<rparr>,
          \<lparr>addon_name = ''a3'', serverMiddleware = Some ([], Rejects (Error ''boom''))\<rparr>,
          \<lparr>addon_name = ''a4'', serverMiddleware = Some ([Handler ''h4''], Resolves)\<rparr>]\<rparr>)
      (startOptions ex_task) ex_task) = Resolves
   \<and> new_actions ex_task (fst (startHttpServer
      (ex_env\<lparr>project_has := (\<lambda>p. True),
         project_require := (\<lambda>p. Inr (JSFunction ''mock'' 2 [Handler ''api''] Resolves)),
         addons :=
         [\<lparr>addon_name = ''a1'', serverMiddleware = Some ([Handler ''h1''], Resolves)\<rparr>,
          \<lparr>addon_name = ''a2'', serverMiddleware = None\<rparr>,
          \<lparr>addon_name = ''a3'', serverMiddleware = Some ([], Rejects (Error ''boom''))\<rparr>,
          \<lparr>addon_name = ''a4'', serverMiddleware = Some ([Handler ''h4''], Resolves)\<rparr>]\<rparr>)
      ex_task)) =
      [Express, AppUse Compression, CreateServer HttpServer,
       ServerCall ''mock'' [Compression] (ex_options\<lparr>opt_httpServer := Some HttpServer\<rparr>),
       InitializeAddons,
       ServerMiddleware ''a1'' [Compression, Handler ''api'']
         (ex_options\<lparr>opt_httpServer := Some HttpServer\<rparr>),
       ServerMiddleware ''a3'' [Compression, Handler ''api'', Handler ''h1'']
         (ex_options\<lparr>opt_httpServer := Some HttpServer\<rparr>)]
   \<and> snd (startHttpServer
      (ex_env\<lparr>project_has := (\<lambda>p. True),
         project_require := (\<lambda>p. Inr (JSFunction ''mock'' 2 [Handler ''api''] Resolves)),
         addons :=
         [\<lparr>addon_name = ''a1'', serverMiddleware = Some ([Handler ''h1''], Resolves)\<rparr>,
          \<lparr>addon_name = ''a2'', serverMiddleware = None\<rparr>,
          \<lparr>addon_name = ''a3'', serverMiddleware = Some ([], Rejects (Error ''boom''))\<rparr>,
          \<lparr>addon_name = ''a4'', serverMiddleware = Some ([Handler ''h4''], Resolves)\<rparr>]\<rparr>)
      ex_task) = Rejects (Error ''boom'')
   \<and> app (fst (startHttpServer
      (ex_env\<lparr>project_has := (\<lambda>p. True),
         project_require := (\<lambda>p. Inr (JSFunction ''mock'' 2 [Handler ''api''] Resolves)),
         addons :=
         [\<lparr>addon_name = ''a1'', serverMiddleware = Some ([Handler ''h1''], Resolves)\<rparr>,
          \<lparr>addon_name = ''a2'', serverMiddleware = None\<rparr>,
          \<lparr>addon_name = ''a3'', serverMiddleware = Some ([], Rejects (Error ''boom''))\<rparr>,
          \<lparr>addon_name = ''a4'', serverMiddleware = Some ([Handler ''h4''], Resolves)\<rparr>]\<rparr>)
      ex_task)) = [Compression, Handler ''api'', Handler ''h1'']
   \<and> filter is_listen (new_actions ex_task (fst (startHttpServer
      (ex_env\<lparr>project_has := (\<lambda>p. True),
         project_require := (\<lambda>p. Inr (JSFunction ''mock'' 2 [Handler ''api''] Resolves)),
         addons :=
         [\<lparr>addon_name = ''a1'', serverMiddleware = Some ([Handler ''h1''], Resolves)\<rparr>,
          \<lparr>addon_name = ''a2'', serverMiddleware = None\<rparr>,
          \<lparr>addon_name = ''a3'', serverMiddleware = Some ([], Rejects (Error ''boom''))\<rparr>,
          \<lparr>addon_name = ''a4'', serverMiddleware = Some ([Handler ''h4''], Resolves)\<rparr>]\<rparr>)
      ex_task))) = []"
proof -
  define a1 :: addon where "a1 = \<lparr>addon_name = ''a1'', serverMiddleware = Some ([Handler ''h1''], Resolves)\<rparr>"
  define a2 :: addon where "a2 = \<lparr>addon_name = ''a2'', serverMiddleware = None\<rparr>"
  define a3 :: addon where "a3 = \<lparr>addon_name = ''a3'', serverMiddleware = Some ([], Rejects (Error ''boom''))\<rparr>"
  define a4 :: addon where "a4 = \<lparr>addon_name = ''a4'', serverMiddleware = Some ([Handler ''h4''], Resolves)\<rparr>"
  define e where "e = ex_env\<lparr>project_has := (\<lambda>p. True),
         project_require := (\<lambda>p. Inr (JSFunction ''mock'' 2 [Handler ''api''] Resolves)),
         addons := [a1, a2] @ a3 # [a4]\<rparr>"
  define o' where "o' = ex_options\<lparr>opt_httpServer := Some HttpServer\<rparr>"
  have h6: "snd (setupHttpServer e ex_task) = None"
    by (simp add: e_def ex_defs run_defs)
  have h7: "snd (processAppMiddlewares e (startOptions ex_task) ex_task) = Resolves"
    by (simp add: e_def ex_defs run_defs)
  have h2: "addons e = [a1, a2] @ a3 # [a4]" by (simp add: e_def)
  have h3: "series_outcome [a1, a2] = Resolves" by (simp add: a1_def a2_def)
  have h4: "serverMiddleware a3 = Some ([], Rejects (Error ''boom''))" by (simp add: a3_def)
  have h5: "settle (Rejects (Error ''boom'')) = Rejects (Error ''boom'')" by simp
  note th = pipeline_order [of ex_task e "[a1, a2]" a3 "[a4]" "[]" "Rejects (Error ''boom'')" "Error ''boom''"]
  from th h6 h7 have h1: "InitializeAddons \<in> set (new_actions ex_task (fst (startHttpServer e ex_task)))"
    by blast
  from th h1 h2 h3 h4 h5
  have 1: "snd (startHttpServer e ex_task) = Rejects (Error ''boom'')"
    and 2: "\<not> list_ex is_listen (new_actions ex_task (fst (startHttpServer e ex_task)))"
    by blast+
  from 2 have 3: "filter is_listen (new_actions ex_task (fst (startHttpServer e ex_task))) = []"
    by (simp add: list_ex_iff filter_empty_conv)
  from th h6 h7 obtain srv where
    so: "startOptions (fst (startHttpServer e ex_task)) =
           (startOptions ex_task)\<lparr>opt_httpServer := Some srv\<rparr>"
    and na: "new_actions ex_task (fst (startHttpServer e ex_task)) =
              [Express, AppUse Compression, CreateServer srv] @
              new_actions (ex_task\<lparr>app := [Compression]\<rparr>)
                (fst (processAppMiddlewares e (startOptions (fst (startHttpServer e ex_task)))
                        (ex_task\<lparr>app := [Compression]\<rparr>))) @
              InitializeAddons #
              hook_calls (startOptions (fst (startHttpServer e ex_task)))
                (app (fst (processAppMiddlewares e (startOptions (fst (startHttpServer e ex_task)))
                             (ex_task\<lparr>app := [Compression]\<rparr>))))
                (addons e) @
              (if series_outcome (addons e) = Resolves
               then Listen (port (startOptions ex_task)) (host (startOptions ex_task)) #
                    (if listen_outcome e = Resolves then [Emit ''listening''] else [])
               else [])"
    and ap: "app (fst (startHttpServer e ex_task)) =
              app (fst (processAppMiddlewares e (startOptions (fst (startHttpServer e ex_task)))
                          (ex_task\<lparr>app := [Compression]\<rparr>))) @
              series_mounts (addons e)"
    by blast
  have ev: "startOptions (fst (startHttpServer e ex_task)) = o'"
    by (simp add: e_def o'_def a1_def a2_def a3_def a4_def ex_defs run_defs)
  from so ev have srv: "srv = HttpServer"
    by (simp add: o'_def ex_defs)
  have pm: "fst (processAppMiddlewares e o' (ex_task\<lparr>app := [Compression]\<rparr>)) =
      ex_task\<lparr>app := [Compression, Handler ''api''], trace := [ServerCall ''mock'' [Compression] o']\<rparr>"
    by (simp add: e_def ex_task_def processAppMiddlewares_def log_def)
  have 4: "new_actions ex_task (fst (startHttpServer e ex_task)) =
      [Express, AppUse Compression, CreateServer HttpServer,
       ServerCall ''mock'' [Compression] o', InitializeAddons,
       ServerMiddleware ''a1'' [Compression, Handler ''api''] o',
       ServerMiddleware ''a3'' [Compression, Handler ''api'', Handler ''h1''] o']"
    unfolding na ev srv pm h2
    by (simp add: a1_def a2_def a3_def a4_def new_actions_def ex_task_def)
  have 5: "app (fst (startHttpServer e ex_task)) = [Compression, Handler ''api'', Handler ''h1'']"
    unfolding ap ev pm h2 by (simp add: a1_def a2_def a3_def a4_def)
  from h6 h7 4 1 5 3 show ?thesis
    unfolding e_def a1_def a2_def a3_def a4_def o'_def by simp
qed

theorem restart_never_rejects_witness:
  "\<not> hangs (ex_env\<lparr>listen_outcome := Rejects (Error ''EADDRINUSE'')\<rparr>) ex_task
   \<and> snd (restart_cycle (ex_env\<lparr>listen_outcome := Rejects (Error ''EADDRINUSE'')\<rparr>) ex_task) = Resolves
   \<and> last (trace (fst (restart_cycle (ex_env\<lparr>listen_outcome := Rejects (Error ''EADDRINUSE'')\<rparr>) ex_task))) =
       WriteError (SilentError (bind_message ex_options))
   \<and> last (trace (fst (restart_cycle (ex_env\<lparr>close_outcome := Rejects (Error ''ENOTRUNNING'')\<rparr>)
        (ex_task\<lparr>httpServer := Some HttpServer\<rparr>)))) = WriteError (Error ''ENOTRUNNING'')
   \<and> returned ex_world = []
   \<and> list_all (\<lambda>ro. snd ro = Resolves)
        (returned (run [Restart, Restart,
           Settled (ex_env\<lparr>listen_outcome := Rejects (Error ''EADDRINUSE'')\<rparr>),
           Settled (ex_env\<lparr>listen_outcome := Rejects (Error ''EADDRINUSE'')\<rparr>)] ex_world))"
proof -
  define e where "e = ex_env\<lparr>listen_outcome := Rejects (Error ''EADDRINUSE'')\<rparr>"
  define e' where "e' = ex_env\<lparr>close_outcome := Rejects (Error ''ENOTRUNNING'')\<rparr>"
  define t' where "t' = ex_task\<lparr>httpServer := Some HttpServer\<rparr>"
  define err where "err = SilentError (bind_message ex_options)"
  have h1: "\<not> hangs e ex_task" by (simp add: e_def hangs_def ex_defs)
  have h2: "snd (stopHttpServer e ex_task) = Resolves \<and>
        settle (snd (startHttpServer e (invalidate_task e (fst (stopHttpServer e ex_task))))) = Rejects err"
    by (simp add: e_def err_def ex_defs run_defs bind_message_def)
  have h3: "settle (snd (stopHttpServer e' t')) = Rejects (Error ''ENOTRUNNING'')"
    by (simp add: e'_def t'_def ex_defs run_defs)
  have h4: "returned ex_world = []" by (simp add: ex_defs)
  from restart_never_rejects [of e ex_task err ex_world "[]"] h1
  have 1: "snd (restart_cycle e ex_task) = Resolves" by blast
  from restart_never_rejects [of e ex_task err ex_world "[]"] h2
  have "new_actions (fst (startHttpServer e (invalidate_task e (fst (stopHttpServer e ex_task)))))
           (fst (restart_cycle e ex_task)) = [WriteError err]" by blast
  then have 2: "last (trace (fst (restart_cycle e ex_task))) = WriteError err"
    by (simp add: new_actions_def e_def ex_defs run_defs)
  from restart_never_rejects [of e' t' "Error ''ENOTRUNNING''" ex_world "[]"] h3
  have "new_actions (fst (stopHttpServer e' t')) (fst (restart_cycle e' t')) =
      [WriteError (Error ''ENOTRUNNING'')]" by blast
  then have 3: "last (trace (fst (restart_cycle e' t'))) = WriteError (Error ''ENOTRUNNING'')"
    by (simp add: new_actions_def e'_def t'_def ex_defs run_defs)
  from restart_never_rejects [of e ex_task err ex_world "[Restart, Restart, Settled e, Settled e]"] h4
  have 4: "list_all (\<lambda>ro. snd ro = Resolves)
        (returned (run [Restart, Restart, Settled e, Settled e] ex_world))"
    unfolding list_all_iff by blast
  from h1 1 2 3 h4 4 show ?thesis unfolding e_def e'_def t'_def err_def by simp
qed


theorem debounce_one_restart_witness:
  "timer (ex_world\<lparr>the_task := watch ex_task\<rparr>) = None
   \<and> burst (restart_delay (watch ex_task)) [0, 40, 90]
   \<and> timer (run [Notify Change 0, Notify Add 40, Notify Delete 90]
        (ex_world\<lparr>the_task := watch ex_task\<rparr>)) = Some 190
   \<and> marks (run [Notify Change 0, Notify Add 40, Notify Delete 90]
        (ex_world\<lparr>the_task := watch ex_task\<rparr>)) = []
   \<and> marks (run [Notify Change 0, Notify Add 40, Notify Delete 90, Time 190]
        (ex_world\<lparr>the_task := watch ex_task\<rparr>)) = [CycleBegin 0]"
proof -
  define w where "w = ex_world\<lparr>the_task := watch ex_task\<rparr>"
  define ns where "ns = [(Change, 0::nat), (Add, 40), (Delete, 90)]"
  have d: "restart_delay (the_task w) = 100"
    by (simp add: w_def restart_delay_def ex_defs watch_def log_def)
  have h1: "timer w = None" by (simp add: w_def ex_defs)
  have h2: "ns \<noteq> []" by (simp add: ns_def)
  have h3: "\<forall>k \<in> fst ` set ns. WatcherOn k \<in> set (trace (the_task w))"
    by (simp add: ns_def w_def ex_defs watch_def log_def)
  have h4: "burst (restart_delay (the_task w)) (map snd ns)" by (simp add: d ns_def)
  have h5: "snd (last ns) + restart_delay (the_task w) \<le> 190" by (simp add: d ns_def)
  have p: "serverRestartPromise (the_task w) = None" by (simp add: w_def ex_defs watch_def log_def)
  have m: "marks w = []" by (simp add: w_def ex_defs)
  have n: "next_request w = 0" by (simp add: w_def ex_defs)
  from debounce_one_restart [OF h1 h2 h3 h4 h5] p
  have 1: "run (map (\<lambda>n. Notify (fst n) (snd n)) ns) w =
           w\<lparr>timer := Some (snd (last ns) + restart_delay (the_task w))\<rparr>"
    and 2: "marks (run (map (\<lambda>n. Notify (fst n) (snd n)) ns @ [Time 190]) w) =
             marks w @ [CycleBegin (next_request w)]"
    by blast+
  have e1: "map (\<lambda>n. Notify (fst n) (snd n)) ns = [Notify Change 0, Notify Add 40, Notify Delete 90]"
    by (simp add: ns_def)
  from 1 have 3: "timer (run [Notify Change 0, Notify Add 40, Notify Delete 90] w) = Some 190"
    unfolding e1 by (simp add: d ns_def)
  from 1 have 4: "marks (run [Notify Change 0, Notify Add 40, Notify Delete 90] w) = []"
    unfolding e1 by (simp add: m)
  from 2 have 5: "marks (run [Notify Change 0, Notify Add 40, Notify Delete 90, Time 190] w) = [CycleBegin 0]"
    unfolding e1 by (simp add: m n)
  from h4 have 6: "burst (restart_delay (watch ex_task)) [0, 40, 90]"
    by (simp add: ns_def w_def)
  from h1 6 3 4 5 show ?thesis unfolding w_def by simp
qed

end
